theory Spec2Isabelle
  imports Main "HOL-Library.Word" "HOL-Library.AList"
begin

unbundle bit_operations_syntax

section \<open>Name allocation (compiler/utils.go)\<close>

subsection \<open>Identifier encoding\<close>

text \<open>
  Go strings are byte sequences; a \<^typ>\<open>string\<close> here is the list of bytes.
  \<open>url.QueryEscape\<close> of Go's standard library keeps ASCII letters, digits and
  \<open>- _ . ~\<close>, turns a space into \<open>+\<close> and writes every other byte as \<open>%XX\<close>
  with upper-case hexadecimal digits.
\<close>

definition isAlnum :: "char \<Rightarrow> bool" where
  "isAlnum c = (let n = (of_char c :: nat) in
     (97 \<le> n \<and> n \<le> 122) \<or> (65 \<le> n \<and> n \<le> 90) \<or> (48 \<le> n \<and> n \<le> 57))"

definition shouldEscape :: "char \<Rightarrow> bool" where
  "shouldEscape c = (\<not> (isAlnum c \<or> c = CHR ''-'' \<or> c = CHR ''_'' \<or> c = CHR ''.'' \<or> c = CHR ''~''))"

definition upperhex :: "nat \<Rightarrow> char" where
  "upperhex d = ''0123456789ABCDEF'' ! d"

definition escapeByte :: "char \<Rightarrow> string" where
  "escapeByte c =
     (if shouldEscape c then
        (if c = CHR '' '' then ''+''
         else [CHR ''%'', upperhex ((of_char c :: nat) div 16), upperhex ((of_char c :: nat) mod 16)])
      else [c])"

definition QueryEscape :: "string \<Rightarrow> string" where
  "QueryEscape s = concat (map escapeByte s)"

text \<open>\<open>strings.ReplaceAll\<close> for a non-empty pattern: non-overlapping matches, left to right.\<close>

function ReplaceAll :: "string \<Rightarrow> string \<Rightarrow> string \<Rightarrow> string" where
  "ReplaceAll [] old new = []"
| "ReplaceAll (c # cs) old new =
     (if old \<noteq> [] \<and> take (length old) (c # cs) = old
      then new @ ReplaceAll (drop (length old - 1) cs) old new
      else c # ReplaceAll cs old new)"
  by pat_completeness auto
termination
  by (relation "measure (\<lambda>(s, old, new). length s)") auto

text \<open>The middle dot U+00B7, as its two UTF-8 bytes.\<close>

definition midDot :: string where
  "midDot = [char_of (0xC2 :: nat), char_of (0xB7 :: nat)]"

definition encodeIdent :: "string \<Rightarrow> string" where
  "encodeIdent name =
     (let name1 = QueryEscape name;
          name2 = ReplaceAll name1 ''%C2%B7'' midDot;
          name3 = ReplaceAll name2 ''%'' ''$''
      in name3)"

subsection \<open>Formatting with \<open>%d\<close>\<close>

definition digit_char :: "nat \<Rightarrow> char" where
  "digit_char d = char_of (48 + d)"

fun dec_nat :: "nat \<Rightarrow> string" where
  "dec_nat n = (if n < 10 then [digit_char n] else dec_nat (n div 10) @ [digit_char (n mod 10)])"

declare dec_nat.simps [simp del]

definition fmt_d :: "int \<Rightarrow> string" where
  "fmt_d i = (if i < 0 then CHR ''-'' # dec_nat (nat (- i)) else dec_nat (nat i))"

subsection \<open>Function contexts\<close>

text \<open>
  A \<open>funcContext\<close> holds the table \<open>allVars\<close> (a Go \<open>map[string]int\<close>, read with
  default 0), the list \<open>localVars\<close> and the names already assigned to objects. The
  \<open>parent\<close> pointers are the list of ancestors passed next to the context, nearest first;
  the package-level context has none.
\<close>

datatype objkind = VarObj | ConstObj | TypeNameObj | FuncObj | OtherObj

text \<open>
  What the naming code reads from a \<open>types.Object\<close>: its identity, name, package path,
  whether it is exported, its dynamic class, whether \<open>o.Parent() != nil &&
  o.Parent().Parent() == types.Universe\<close>, and the function
  \<open>typeparams.FindNestingFunc(o)\<close> (by identity, \<open>None\<close> for nil).
\<close>

record gobject =
  oid :: nat
  oname :: string
  opkg :: string
  oexported :: bool
  okind :: objkind
  oparentIsPkgScope :: bool
  onesting :: "nat option"

type_synonym gtype = nat

record Instance =
  Object :: "gobject option"
  TArgs :: "gtype list"
  TNest :: "gtype list"

record funcContext =
  allVars :: "string \<Rightarrow> int"
  localVars :: "string list"
  objectNames :: "nat \<Rightarrow> string option"
  fc_instance :: Instance

datatype 'a outcome = Panic string | Diverges | Ret 'a

text \<open>Go's \<open>int\<close> is 64 bits wide here; \<open>n + 1\<close> wraps at the top.\<close>

definition int64_succ :: "int \<Rightarrow> int" where
  "int64_succ n = (if n = 2 ^ 63 - 1 then - (2 ^ 63) else n + 1)"

text \<open>
  The inner loop of the minifier: \<open>j\<close> starts at the counter \<open>i \<ge> 0\<close>, so it is a
  natural number and the exit test \<open>j/26 - 1 == -1\<close> is \<open>j div 26 = 0\<close>. The letter
  \<open>string(rune(offset + j%26))\<close> is a single ASCII byte.
\<close>

function minify_digits :: "nat \<Rightarrow> nat \<Rightarrow> string \<Rightarrow> string" where
  "minify_digits offset j name =
     (let name' = char_of (offset + j mod 26) # name
      in if j div 26 = 0 then name' else minify_digits offset (j div 26 - 1) name')"
  by pat_completeness auto
termination
  by (relation "measure (\<lambda>(offset, j, name). j)") auto

declare minify_digits.simps [simp del]

definition minify_offset :: "bool \<Rightarrow> nat" where
  "minify_offset pkgLevel = (if pkgLevel then 65 else 97)"

definition minify_name :: "bool \<Rightarrow> nat \<Rightarrow> string" where
  "minify_name pkgLevel i = minify_digits (minify_offset pkgLevel) i []"

text \<open>The outer loop \<open>for { ...; if fc.allVars[name] == 0 { break }; i++ }\<close>.\<close>

partial_function (option) minify_loop :: "(string \<Rightarrow> int) \<Rightarrow> bool \<Rightarrow> nat \<Rightarrow> string option" where
  "minify_loop av pkgLevel i =
     (let name = minify_name pkgLevel i
      in if av name = 0 then Some name else minify_loop av pkgLevel (i + 1))"

definition newVariable ::
  "bool \<Rightarrow> funcContext \<Rightarrow> funcContext list \<Rightarrow> string \<Rightarrow> bool \<Rightarrow>
     (string \<times> funcContext \<times> funcContext list) outcome" where
  "newVariable minify fc parents name0 pkgLevel =
     (if name0 = [] then Panic ''newVariable: empty name''
      else
        (case (if minify then minify_loop (allVars fc) pkgLevel 0 else Some (encodeIdent name0)) of
           None \<Rightarrow> Diverges
         | Some name \<Rightarrow>
            (let n = allVars fc name;
                 fc1 = fc\<lparr>allVars := (allVars fc)(name := int64_succ n)\<rparr>;
                 varName = (if n > 0 then name @ ''$'' @ fmt_d n else name)
             in if pkgLevel
                then Ret (varName,
                          fc1,
                          map (\<lambda>c2. c2\<lparr>allVars := (allVars c2)(name := int64_succ n)\<rparr>) parents)
                else Ret (varName, fc1\<lparr>localVars := localVars fc1 @ [varName]\<rparr>, parents))))"

definition newLocalVariable ::
  "bool \<Rightarrow> funcContext \<Rightarrow> funcContext list \<Rightarrow> string \<Rightarrow>
     (string \<times> funcContext \<times> funcContext list) outcome" where
  "newLocalVariable minify fc parents name = newVariable minify fc parents name False"

text \<open>A sequence of allocation requests made one after the other in the same context.\<close>

fun allocate_all ::
  "bool \<Rightarrow> funcContext \<Rightarrow> funcContext list \<Rightarrow> (string \<times> bool) list \<Rightarrow>
     (string list \<times> funcContext \<times> funcContext list) outcome" where
  "allocate_all minify fc parents [] = Ret ([], fc, parents)"
| "allocate_all minify fc parents ((name, pkgLevel) # reqs) =
     (case newVariable minify fc parents name pkgLevel of
        Panic m \<Rightarrow> Panic m
      | Diverges \<Rightarrow> Diverges
      | Ret (v, fc', parents') \<Rightarrow>
          (case allocate_all minify fc' parents' reqs of
             Panic m \<Rightarrow> Panic m
           | Diverges \<Rightarrow> Diverges
           | Ret (vs, fc'', parents'') \<Rightarrow> Ret (v # vs, fc'', parents'')))"

definition emptyContext :: funcContext where
  "emptyContext = \<lparr>allVars = (\<lambda>_. 0), localVars = [], objectNames = (\<lambda>_. None),
     fc_instance = \<lparr>Object = None, TArgs = [], TNest = []\<rparr>\<rparr>"

definition names_of ::
  "(string list \<times> funcContext \<times> funcContext list) outcome \<Rightarrow> string list option" where
  "names_of r = (case r of Ret (names, fc, ps) \<Rightarrow> Some names | _ \<Rightarrow> None)"

text \<open>
  For stating what a sequence of minified allocations returns: \<open>ranks u l ps\<close> numbers
  the requests of each level separately, package-level requests (\<open>True\<close>) from \<open>u\<close>
  and local ones from \<open>l\<close>; \<open>picked p reqs xs\<close> selects from \<open>xs\<close> the entries at the
  positions of the requests of level \<open>p\<close>; \<open>minified reqs idxs\<close> are the candidates of
  the given indices, each in the alphabet of its request; \<open>mark names c\<close> is the context
  \<open>c\<close> after \<open>allVars[name] = 1\<close> for each of the names.
\<close>

fun ranks :: "nat \<Rightarrow> nat \<Rightarrow> bool list \<Rightarrow> nat list" where
  "ranks u l [] = []"
| "ranks u l (p # ps) = (if p then u # ranks (Suc u) l ps else l # ranks u (Suc l) ps)"

definition picked :: "bool \<Rightarrow> (string \<times> bool) list \<Rightarrow> 'a list \<Rightarrow> 'a list" where
  "picked p reqs xs = map snd (filter (\<lambda>(r, x). snd r = p) (zip reqs xs))"

definition minified :: "(string \<times> bool) list \<Rightarrow> nat list \<Rightarrow> string list" where
  "minified reqs idxs = map (\<lambda>(r, i). minify_name (snd r) i) (zip reqs idxs)"

definition mark :: "string list \<Rightarrow> funcContext \<Rightarrow> funcContext" where
  "mark names c = c\<lparr>allVars := (\<lambda>b. if b \<in> set names then 1 else allVars c b)\<rparr>"

text \<open>
  The name \<open>newVariable\<close> hands out for the \<open>n\<close>-th request of an encoded name, and
  the names a table accounts for: one per encoded name and count below its entry.
\<close>

definition render :: "string \<Rightarrow> int \<Rightarrow> string" where
  "render name n = (if n > 0 then name @ ''$'' @ fmt_d n else name)"

definition issued :: "(string \<Rightarrow> int) \<Rightarrow> string set" where
  "issued av = {render b k | b k. 0 \<le> k \<and> k < av b}"

definition is_digit :: "char \<Rightarrow> bool" where
  "is_digit c = (48 \<le> (of_char c :: nat) \<and> (of_char c :: nat) \<le> 57)"

text \<open>A string that ends in \<open>$\<close> followed by one or more decimal digits.\<close>

definition numeric_suffix :: "string \<Rightarrow> bool" where
  "numeric_suffix s =
     (let r = rev s; ds = takeWhile is_digit r; rest = dropWhile is_digit r
      in ds \<noteq> [] \<and> rest \<noteq> [] \<and> hd rest = CHR ''$'')"

definition undec :: "string \<Rightarrow> nat" where
  "undec s = foldl (\<lambda>a c. a * 10 + ((of_char c :: nat) - 48)) 0 s"

definition minify_value :: "nat \<Rightarrow> string \<Rightarrow> nat" where
  "minify_value offset s = foldl (\<lambda>a c. a * 26 + ((of_char c :: nat) - offset) + 1) 0 s"

subsection \<open>Object and instance names\<close>

text \<open>
  The package context. \<open>dceDeps\<close> is the list of dependency edges recorded for the
  declaration being generated.
\<close>

record pkgContext =
  minify :: bool
  Pkg :: string
  pkgVars :: "string \<Rightarrow> string option"
  escapingVars :: "nat \<Rightarrow> bool"
  dceDeps :: "(nat \<times> gtype list \<times> gtype list) list"

text \<open>
  Modelled from the spec: \<open>DeclareDCEDep\<close> is a method of the package context defined
  outside these sources; it records a dependency edge from the code being generated to
  the object with its nesting and direct type arguments.
\<close>

definition DeclareDCEDep :: "pkgContext \<Rightarrow> gobject \<Rightarrow> gtype list \<Rightarrow> gtype list \<Rightarrow> pkgContext" where
  "DeclareDCEDep pc o' tNest tArgs = pc\<lparr>dceDeps := dceDeps pc @ [(oid o', tNest, tArgs)]\<rparr>"

text \<open>
  Modelled from the spec: \<open>Instance.IsTrivial\<close> is defined outside these sources; an
  instantiation is trivial when it has no direct and no inherited type arguments.
\<close>

definition IsTrivial :: "Instance \<Rightarrow> bool" where
  "IsTrivial inst = (TArgs inst = [] \<and> TNest inst = [])"

definition isVarOrConst :: "gobject \<Rightarrow> bool" where
  "isVarOrConst o' = (okind o' = VarObj \<or> okind o' = ConstObj)"

definition isPkgLevel :: "gobject \<Rightarrow> bool" where
  "isPkgLevel o' = (oparentIsPkgScope o' \<or> okind o' = TypeNameObj)"

definition pkgVar :: "pkgContext \<Rightarrow> string \<Rightarrow> string" where
  "pkgVar pc pkg =
     (if pkg = Pkg pc then ''$pkg''
      else (case pkgVars pc pkg of
              Some v \<Rightarrow> v
            | None \<Rightarrow> ''$packages['' @ [CHR 0x22] @ pkg @ [CHR 0x22] @ '']''))"

text \<open>The chain is the context followed by its ancestors; an ancestor's entry wins.\<close>

fun assignedObjectName :: "funcContext list \<Rightarrow> gobject \<Rightarrow> string option" where
  "assignedObjectName [] o' = None"
| "assignedObjectName (fc # parents) o' =
     (case assignedObjectName parents o' of
        Some name \<Rightarrow> Some name
      | None \<Rightarrow> objectNames fc (oid o'))"

definition setObjectName :: "funcContext \<Rightarrow> gobject \<Rightarrow> string \<Rightarrow> funcContext" where
  "setObjectName fc o' name = fc\<lparr>objectNames := (objectNames fc)(oid o' \<mapsto> name)\<rparr>"

text \<open>
  \<open>typeparams.FindNestingFunc(o) == fc.instance.Object\<close> compares a \<open>*types.Func\<close>
  with an interface value: it holds when the function is non-nil and is the object held.
\<close>

definition nestedIn :: "gobject \<Rightarrow> funcContext \<Rightarrow> bool" where
  "nestedIn o' fc =
     (case onesting o' of
        None \<Rightarrow> False
      | Some f \<Rightarrow> (case Object (fc_instance fc) of None \<Rightarrow> False | Some g \<Rightarrow> oid g = f))"

definition objectName ::
  "pkgContext \<Rightarrow> funcContext \<Rightarrow> funcContext list \<Rightarrow> gobject \<Rightarrow>
     (string \<times> pkgContext \<times> funcContext \<times> funcContext list) outcome" where
  "objectName pc fc parents o' =
     (let pc1 = (if isPkgLevel o'
                 then DeclareDCEDep pc o'
                        (if nestedIn o' fc then TArgs (fc_instance fc) else [])
                        []
                 else pc)
      in if isPkgLevel o' \<and> (opkg o' \<noteq> Pkg pc \<or> (isVarOrConst o' \<and> oexported o'))
         then Ret (pkgVar pc (opkg o') @ ''.'' @ oname o', pc1, fc, parents)
         else
           (case (case assignedObjectName (fc # parents) o' of
                    Some name \<Rightarrow> Ret (name, fc, parents)
                  | None \<Rightarrow>
                     (case newVariable (minify pc) fc parents (oname o') (isPkgLevel o') of
                        Panic m \<Rightarrow> Panic m
                      | Diverges \<Rightarrow> Diverges
                      | Ret (name, fc', parents') \<Rightarrow>
                          (if isPkgLevel o' \<and> parents' \<noteq> []
                           then Ret (name, fc', butlast parents' @ [setObjectName (last parents') o' name])
                           else Ret (name, setObjectName fc' o' name, parents')))) of
              Panic m \<Rightarrow> Panic m
            | Diverges \<Rightarrow> Diverges
            | Ret (name, fc', parents') \<Rightarrow>
                (if okind o' = VarObj \<and> escapingVars pc (oid o')
                 then Ret (name @ ''[0]'', pc1, fc', parents')
                 else Ret (name, pc1, fc', parents'))))"

text \<open>
  \<open>instName\<close>. The identifier \<open>instanceSet.ID(inst)\<close> and the label
  \<open>inst.TypeParamsString\<close> come from code outside these sources and are parameters.
  A nil \<open>inst.Object\<close> makes \<open>objectName\<close> dereference a nil pointer.
\<close>

definition instName ::
  "(Instance \<Rightarrow> int) \<Rightarrow> (Instance \<Rightarrow> string) \<Rightarrow>
   pkgContext \<Rightarrow> funcContext \<Rightarrow> funcContext list \<Rightarrow> Instance \<Rightarrow>
     (string \<times> pkgContext \<times> funcContext \<times> funcContext list) outcome" where
  "instName instID label pc fc parents inst =
     (case Object inst of
        None \<Rightarrow> Panic ''nil pointer dereference''
      | Some o' \<Rightarrow>
         (case objectName pc fc parents o' of
            Panic m \<Rightarrow> Panic m
          | Diverges \<Rightarrow> Diverges
          | Ret (objName, pc1, fc', parents') \<Rightarrow>
              (if IsTrivial inst then Ret (objName, pc1, fc', parents')
               else
                 (let pc2 = DeclareDCEDep pc1 o' (TNest inst) (TArgs inst)
                  in Ret (objName @ ''['' @ fmt_d (instID inst) @ label inst @ '']'',
                          pc2, fc', parents')))))"

section \<open>The value bridge of the runtime\<close>

subsection \<open>Host numbers, strings and the standard conversions\<close>

text \<open>
  A finite host number is written as sign, decimal digits and number of decimals:
  \<open>Fin neg s d\<close> is \<open>s / 10\<^sup>d\<close>, negated when \<open>neg\<close> holds; integers have \<open>d = 0\<close>.
  Strings are lists of UTF-16 code units.
\<close>

datatype jsnum = NaN | PInf | NInf | Fin bool nat nat

type_synonym jsstring = "nat list"

definition js :: "string \<Rightarrow> jsstring" where
  "js s = map of_char s"

definition jsint :: "int \<Rightarrow> jsnum" where
  "jsint i = Fin (i < 0) (nat \<bar>i\<bar>) 0"

text \<open>\<open>Number::toString\<close> of ECMAScript, radix 10.\<close>

definition Number_toString :: "jsnum \<Rightarrow> string" where
  "Number_toString x =
     (case x of
        NaN \<Rightarrow> ''NaN''
      | PInf \<Rightarrow> ''Infinity''
      | NInf \<Rightarrow> ''-Infinity''
      | Fin neg s d \<Rightarrow>
          (if s = 0 then ''0''
           else
             (let all = dec_nat s;
                  digits = rev (dropWhile (\<lambda>c. c = CHR ''0'') (rev all));
                  k = int (length digits);
                  n = int (length all) - int d;
                  ex = (if n - 1 < 0 then ''-'' else ''+'') @ dec_nat (nat \<bar>n - 1\<bar>);
                  body =
                    (if k \<le> n \<and> n \<le> 21 then digits @ replicate (nat (n - k)) CHR ''0''
                     else if 0 < n \<and> n \<le> 21
                       then take (nat n) digits @ ''.'' @ drop (nat n) digits
                     else if - 6 < n \<and> n \<le> 0
                       then ''0.'' @ replicate (nat (- n)) CHR ''0'' @ digits
                     else if k = 1 then digits @ ''e'' @ ex
                     else take 1 digits @ ''.'' @ drop 1 digits @ ''e'' @ ex)
              in (if neg then ''-'' @ body else body))))"

definition isWhiteSpace :: "nat \<Rightarrow> bool" where
  "isWhiteSpace c =
     (c \<in> set [9, 10, 11, 12, 13, 32, 160, 5760, 8232, 8233, 8239, 8287, 12288, 65279]
      \<or> (8192 \<le> c \<and> c \<le> 8202))"

definition digitVal :: "nat \<Rightarrow> nat option" where
  "digitVal c =
     (if 48 \<le> c \<and> c \<le> 57 then Some (c - 48)
      else if 97 \<le> c \<and> c \<le> 122 then Some (c - 87)
      else if 65 \<le> c \<and> c \<le> 90 then Some (c - 55)
      else None)"

text \<open>
  The host keeps a number as a double. An integer below \<open>2\<^sup>5\<^sup>3\<close> is kept as it is; a
  larger one is rounded to 53 significant bits, to the nearest value and to the even one
  at a tie, and becomes infinite from \<open>2\<^sup>1\<^sup>0\<^sup>2\<^sup>4\<close> on.
\<close>

fun bitlen :: "nat \<Rightarrow> nat" where
  "bitlen n = (if n = 0 then 0 else Suc (bitlen (n div 2)))"

declare bitlen.simps [simp del]

definition round_double :: "nat \<Rightarrow> nat" where
  "round_double n =
     (if n < 9007199254740992 then n
      else
        (let e = bitlen n - 53;
             q = n div 2 ^ e;
             r = n mod 2 ^ e;
             h = 2 ^ (e - 1)
         in (if h < r \<or> (r = h \<and> odd q) then q + 1 else q) * 2 ^ e))"

definition number_of_nat :: "bool \<Rightarrow> nat \<Rightarrow> jsnum" where
  "number_of_nat neg n =
     (if n < 9007199254740992 then Fin neg n 0
      else if round_double n < 2 ^ 1024 then Fin neg (round_double n) 0
      else if neg then NInf else PInf)"

text \<open>
  \<open>parseInt\<close> with no radix, on the string form of its argument: the mathematical
  integer that the digits denote, as a host number.
\<close>

definition parseInt_string :: "jsstring \<Rightarrow> jsnum" where
  "parseInt_string inputString =
     (let S = dropWhile isWhiteSpace inputString;
          neg = (S \<noteq> [] \<and> hd S = 45);
          S1 = (if S \<noteq> [] \<and> (hd S = 43 \<or> hd S = 45) then tl S else S);
          hex = (2 \<le> length S1 \<and> S1 ! 0 = 48 \<and> (S1 ! 1 = 120 \<or> S1 ! 1 = 88));
          R = (if hex then 16 else 10);
          S2 = (if hex then drop 2 S1 else S1);
          Z = takeWhile (\<lambda>c. case digitVal c of Some v \<Rightarrow> v < R | None \<Rightarrow> False) S2
      in if Z = [] then NaN
         else number_of_nat neg (foldl (\<lambda>a c. a * R + the (digitVal c)) 0 Z))"

text \<open>\<open>ToInt32\<close>, and the shift operators on numbers, for shift counts below 32.\<close>

definition ToInt32 :: "jsnum \<Rightarrow> 32 word" where
  "ToInt32 x =
     (case x of
        Fin neg s d \<Rightarrow> word_of_int (if neg then - int (s div 10 ^ d) else int (s div 10 ^ d))
      | _ \<Rightarrow> 0)"

definition js_shl :: "jsnum \<Rightarrow> nat \<Rightarrow> jsnum" where
  "js_shl x n = jsint (sint (push_bit n (ToInt32 x)))"

definition js_sar :: "jsnum \<Rightarrow> nat \<Rightarrow> jsnum" where
  "js_sar x n = jsint (sint (signed_drop_bit n (ToInt32 x)))"

definition js_shr :: "jsnum \<Rightarrow> nat \<Rightarrow> jsnum" where
  "js_shr x n = jsint (uint (drop_bit n (ToInt32 x)))"

subsection \<open>Strings across the bridge\<close>

text \<open>
  A compiled string holds the bytes of its UTF-8 text, one per code unit; a host string
  is UTF-16. \<open>charCodeAt\<close> yields NaN (\<open>None\<close>) past the end.
\<close>

definition charCodeAt :: "jsstring \<Rightarrow> nat \<Rightarrow> int option" where
  "charCodeAt s i = (if i < length s then Some (int (s ! i)) else None)"

definition fromCharCode :: "int \<Rightarrow> nat" where
  "fromCharCode c = nat (c mod 65536)"

definition isASCII :: "jsstring \<Rightarrow> bool" where
  "isASCII s = list_all (\<lambda>c. \<not> 128 \<le> c) s"

text \<open>
  Modelled from the spec: \<open>$decodeRune\<close> and \<open>$encodeRune\<close> are runtime functions
  outside these sources. They decode and encode one scalar value of the compiled
  (UTF-8) string encoding; a malformed sequence decodes to U+FFFD with width 1, and
  a value that is no scalar is encoded as U+FFFD.
\<close>

definition decodeRune :: "jsstring \<Rightarrow> nat \<Rightarrow> int \<times> nat" where
  "decodeRune str pos =
     (case charCodeAt str pos of
        None \<Rightarrow> (0xFFFD, 1)
      | Some c0 \<Rightarrow>
         if c0 < 0x80 then (c0, 1)
         else if c0 < 0xC0 then (0xFFFD, 1)
         else
          (case charCodeAt str (pos + 1) of
             None \<Rightarrow> (0xFFFD, 1)
           | Some c1 \<Rightarrow>
              if c1 < 0x80 \<or> 0xC0 \<le> c1 then (0xFFFD, 1)
              else if c0 < 0xE0 then
                (let r = push_bit 6 (c0 AND 0x1F) OR (c1 AND 0x3F)
                 in if r \<le> 0x7F then (0xFFFD, 1) else (r, 2))
              else
               (case charCodeAt str (pos + 2) of
                  None \<Rightarrow> (0xFFFD, 1)
                | Some c2 \<Rightarrow>
                   if c2 < 0x80 \<or> 0xC0 \<le> c2 then (0xFFFD, 1)
                   else if c0 < 0xF0 then
                     (let r = push_bit 12 (c0 AND 0x0F) OR push_bit 6 (c1 AND 0x3F) OR (c2 AND 0x3F)
                      in if r \<le> 0x7FF then (0xFFFD, 1)
                         else if 0xD800 \<le> r \<and> r \<le> 0xDFFF then (0xFFFD, 1)
                         else (r, 3))
                   else
                    (case charCodeAt str (pos + 3) of
                       None \<Rightarrow> (0xFFFD, 1)
                     | Some c3 \<Rightarrow>
                        if c3 < 0x80 \<or> 0xC0 \<le> c3 then (0xFFFD, 1)
                        else if c0 < 0xF8 then
                          (let r = push_bit 18 (c0 AND 0x07) OR push_bit 12 (c1 AND 0x3F)
                                   OR push_bit 6 (c2 AND 0x3F) OR (c3 AND 0x3F)
                           in if r \<le> 0xFFFF \<or> 0x10FFFF < r then (0xFFFD, 1) else (r, 4))
                        else (0xFFFD, 1)))))"

definition encodeRune :: "int option \<Rightarrow> jsstring" where
  "encodeRune r0 =
     (case r0 of
        None \<Rightarrow> map fromCharCode [0xF0, 0x80, 0x80, 0x80]
      | Some r1 \<Rightarrow>
         (let r = (if r1 < 0 \<or> r1 > 0x10FFFF \<or> (0xD800 \<le> r1 \<and> r1 \<le> 0xDFFF) then 0xFFFD else r1)
          in if r \<le> 0x7F then map fromCharCode [r]
             else if r \<le> 0x7FF then
               map fromCharCode [0xC0 OR drop_bit 6 r, 0x80 OR (r AND 0x3F)]
             else if r \<le> 0xFFFF then
               map fromCharCode
                 [0xE0 OR drop_bit 12 r, 0x80 OR (drop_bit 6 r AND 0x3F), 0x80 OR (r AND 0x3F)]
             else
               map fromCharCode
                 [0xF0 OR drop_bit 18 r, 0x80 OR (drop_bit 12 r AND 0x3F),
                  0x80 OR (drop_bit 6 r AND 0x3F), 0x80 OR (r AND 0x3F)]))"

text \<open>
  The loop of \<open>$externalize\<close> for \<open>$kindString\<close>:
  \<open>for (var i = 0; i < v.length; i += r[1])\<close>.
\<close>

function externalize_loop :: "jsstring \<Rightarrow> nat \<Rightarrow> jsstring \<Rightarrow> jsstring" where
  "externalize_loop v i s =
     (if i < length v then
        (let r = decodeRune v i; c = fst r
         in if c > 0xFFFF then
              (let h = (c - 0x10000) div 0x400 + 0xD800;
                   l = (c - 0x10000) mod 0x400 + 0xDC00
               in externalize_loop v (i + snd r) (s @ [fromCharCode h, fromCharCode l]))
            else externalize_loop v (i + snd r) (s @ [fromCharCode c]))
      else s)"
  by pat_completeness auto
termination
proof (relation "measure (\<lambda>(v, i, s). length v - i)")
  have width: "0 < snd (decodeRune v i)" for v i
    unfolding decodeRune_def Let_def by (simp split: option.split)
  show "wf (measure (\<lambda>(v, i, s). length v - i))" by simp
  show "((v, i + snd r, s @ [fromCharCode h, fromCharCode l]), (v, i, s))
          \<in> measure (\<lambda>(v, i, s). length v - i)"
    if "i < length v" "r = decodeRune v i" for v i s r h l
    using that width [of v i] by simp
  show "((v, i + snd r, s @ [fromCharCode c]), (v, i, s))
          \<in> measure (\<lambda>(v, i, s). length v - i)"
    if "i < length v" "r = decodeRune v i" for v i s r c
    using that width [of v i] by simp
qed

declare externalize_loop.simps [simp del]

definition externalize_string :: "jsstring \<Rightarrow> jsstring" where
  "externalize_string v = (if isASCII v then v else externalize_loop v 0 [])"

text \<open>The loop of \<open>$internalize\<close> for \<open>$kindString\<close>; \<open>l\<close> is NaN past the end.\<close>

function internalize_loop :: "jsstring \<Rightarrow> nat \<Rightarrow> jsstring \<Rightarrow> jsstring" where
  "internalize_loop v i s =
     (if i < length v then
        (let h = int (v ! i)
         in if 0xD800 \<le> h \<and> h \<le> 0xDBFF then
              (let l = charCodeAt v (i + 1);
                   c = map_option (\<lambda>l. (h - 0xD800) * 0x400 + l - 0xDC00 + 0x10000) l
               in internalize_loop v (i + 2) (s @ encodeRune c))
            else internalize_loop v (i + 1) (s @ encodeRune (Some h)))
      else s)"
  by pat_completeness auto
termination
  by (relation "measure (\<lambda>(v, i, s). length v - i)") auto

declare internalize_loop.simps [simp del]

definition internalize_string :: "jsstring \<Rightarrow> jsstring" where
  "internalize_string v = (if isASCII v then v else internalize_loop v 0 [])"

text \<open>Unicode scalar values and their UTF-8 text.\<close>

definition scalar :: "int \<Rightarrow> bool" where
  "scalar c = (0 \<le> c \<and> c \<le> 0x10FFFF \<and> \<not> (0xD800 \<le> c \<and> c \<le> 0xDFFF))"

definition utf8 :: "int list \<Rightarrow> jsstring" where
  "utf8 cs = concat (map (\<lambda>c. encodeRune (Some c)) cs)"

definition utf16_unit :: "int \<Rightarrow> jsstring" where
  "utf16_unit c =
     (if c > 0xFFFF
      then [fromCharCode ((c - 0x10000) div 0x400 + 0xD800),
            fromCharCode ((c - 0x10000) mod 0x400 + 0xDC00)]
      else [fromCharCode c])"

definition utf16 :: "int list \<Rightarrow> jsstring" where
  "utf16 cs = concat (map utf16_unit cs)"

subsection \<open>Type descriptors and runtime values\<close>

type_synonym tid = nat

datatype kind =
    KBool | KInt | KInt8 | KInt16 | KInt32 | KInt64
  | KUint | KUint8 | KUint16 | KUint32 | KUint64 | KUintptr
  | KFloat32 | KFloat64 | KComplex64 | KComplex128
  | KArray | KChan | KFunc | KInterface | KMap | KPtr | KSlice | KString | KStruct
  | KUnsafePointer

record field =
  f_prop :: jsstring
  f_name :: jsstring
  f_exported :: bool
  f_typ :: tid

text \<open>
  A type descriptor, by the properties the bridge reads. Descriptors are compared by
  identity (\<open>===\<close>); a \<open>tid\<close> is that identity and the table \<open>tdesc\<close> of the runtime
  gives the descriptor's contents, so that a type may refer to itself.
\<close>

record tdescr =
  t_kind :: kind
  t_string :: string
  t_elem :: tid
  t_key :: tid
  t_len :: nat
  t_fields :: "field list"
  t_methods :: "jsstring list"
  t_params :: "tid list"
  t_results :: "tid list"
  t_variadic :: bool
  t_ptr :: tid

text \<open>
  Runtime values. Host objects and the maps the bridge creates are referred to by
  identity. The other objects are written by the way they were built; \<open>Call\<close> and
  \<open>Apply\<close> stand for the result of a runtime function outside these sources and of
  calling a function value.
\<close>

datatype jsval =
    Undefined
  | Null
  | JBool bool
  | JNum jsnum
  | JStr jsstring
  | HRef nat
  | GoMap nat
  | IfaceNil
  | ThrowNilPointerError
  | NilOf tid
  | ZeroOf tid
  | StructV tid "(jsstring \<times> jsval) list"
  | PtrV jsval
  | New tid "jsval list"
  | NativeArr "jsval list"
  | ObjLit "(jsstring \<times> jsval) list"
  | IntFunc jsval tid jsval jsval
  | ExtFunc jsval tid bool jsval
  | Call string "jsval list"
  | Apply jsval "jsval list"

datatype hclass =
    ClsObject | ClsArray
  | ClsInt8Array | ClsInt16Array | ClsInt32Array
  | ClsUint8Array | ClsUint16Array | ClsUint32Array
  | ClsFloat32Array | ClsFloat64Array
  | ClsBoolean | ClsDate | ClsFunction | ClsNumber | ClsString | ClsOther

text \<open>
  A host object: its \<open>constructor\<close>, its own enumerable properties in key order, its
  other readable properties (an array's \<open>length\<close>, inherited ones), whether it is an
  instance of the host's \<open>Node\<close>, and its string form \<open>String(v)\<close>.
\<close>

record hobject =
  h_class :: hclass
  h_props :: "(jsstring \<times> jsval) list"
  h_hidden :: "(jsstring \<times> jsval) list"
  h_isNode :: bool
  h_string :: jsstring

record host =
  objects :: "nat \<Rightarrow> hobject option"
  parseFloat :: "jsval \<Rightarrow> jsnum"
  hasNode :: bool

text \<open>
  The runtime: the descriptor table, the descriptor \<open>$jsObjectPtr\<close>,
  \<open>$packages["time"].Time\<close> when that package is linked, the well-known descriptors
  and descriptor constructors, and the runtime functions \<open>$assertType\<close> (\<open>None\<close> when
  it panics) and \<open>keyFor\<close>, which are outside these sources.
\<close>

record runtime =
  tdesc :: "tid \<Rightarrow> tdescr"
  jsObjectPtr :: tid
  timeTime :: "tid option"
  assertType :: "jsval \<Rightarrow> tid \<Rightarrow> jsval option"
  keyFor :: "tid \<Rightarrow> jsval \<Rightarrow> jsval"
  sliceType :: "tid \<Rightarrow> tid"
  mapType :: "tid \<Rightarrow> tid \<Rightarrow> tid"
  funcType :: "tid list \<Rightarrow> tid list \<Rightarrow> bool \<Rightarrow> tid"
  ty_Bool :: tid
  ty_Int :: tid
  ty_Int8 :: tid
  ty_Int16 :: tid
  ty_Uint :: tid
  ty_Uint8 :: tid
  ty_Uint16 :: tid
  ty_Float32 :: tid
  ty_Float64 :: tid
  ty_String :: tid
  ty_emptyInterface :: tid

datatype 'a res = Fatal string | TypeError | GoPanic | OutOfFuel | Ok 'a

definition bind_res :: "'a res \<Rightarrow> ('a \<Rightarrow> 'b res) \<Rightarrow> 'b res" where
  "bind_res r f =
     (case r of
        Fatal m \<Rightarrow> Fatal m
      | TypeError \<Rightarrow> TypeError
      | GoPanic \<Rightarrow> GoPanic
      | OutOfFuel \<Rightarrow> OutOfFuel
      | Ok x \<Rightarrow> f x)"

fun mapM_res :: "('s \<Rightarrow> 'a \<Rightarrow> ('b \<times> 's) res) \<Rightarrow> 's \<Rightarrow> 'a list \<Rightarrow> ('b list \<times> 's) res" where
  "mapM_res f s [] = Ok ([], s)"
| "mapM_res f s (x # xs) =
     bind_res (f s x) (\<lambda>(y, s1). bind_res (mapM_res f s1 xs) (\<lambda>(ys, s2). Ok (y # ys, s2)))"

fun foldM_res :: "('a \<Rightarrow> 's \<Rightarrow> 's res) \<Rightarrow> 'a list \<Rightarrow> 's \<Rightarrow> 's res" where
  "foldM_res f [] s = Ok s"
| "foldM_res f (x # xs) s = bind_res (f x s) (foldM_res f xs)"

subsection \<open>Reading values\<close>

definition truthy :: "jsval \<Rightarrow> bool" where
  "truthy v =
     (case v of
        Undefined \<Rightarrow> False
      | Null \<Rightarrow> False
      | JBool b \<Rightarrow> b
      | JNum n \<Rightarrow> (case n of NaN \<Rightarrow> False | Fin neg s d \<Rightarrow> s \<noteq> 0 | _ \<Rightarrow> True)
      | JStr s \<Rightarrow> s \<noteq> []
      | _ \<Rightarrow> True)"

definition ToString :: "host \<Rightarrow> jsval \<Rightarrow> jsstring" where
  "ToString H v =
     (case v of
        Undefined \<Rightarrow> js ''undefined''
      | Null \<Rightarrow> js ''null''
      | JBool b \<Rightarrow> (if b then js ''true'' else js ''false'')
      | JNum n \<Rightarrow> js (Number_toString n)
      | JStr s \<Rightarrow> s
      | HRef a \<Rightarrow> (case objects H a of Some ob \<Rightarrow> h_string ob | None \<Rightarrow> js ''[object Object]'')
      | _ \<Rightarrow> js ''[object Object]'')"

definition parseInt :: "host \<Rightarrow> jsval \<Rightarrow> jsnum" where
  "parseInt H v = parseInt_string (ToString H v)"

definition typeof :: "host \<Rightarrow> jsval \<Rightarrow> string" where
  "typeof H v =
     (case v of
        Undefined \<Rightarrow> ''undefined''
      | JBool b \<Rightarrow> ''boolean''
      | JNum n \<Rightarrow> ''number''
      | JStr s \<Rightarrow> ''string''
      | HRef a \<Rightarrow>
          (case objects H a of
             Some ob \<Rightarrow> (if h_class ob = ClsFunction then ''function'' else ''object'')
           | None \<Rightarrow> ''object'')
      | ThrowNilPointerError \<Rightarrow> ''function''
      | IntFunc f t r m \<Rightarrow> ''function''
      | ExtFunc f t p m \<Rightarrow> ''function''
      | _ \<Rightarrow> ''object'')"

text \<open>\<open>v.constructor\<close> as a host class, for a value that is neither undefined nor null.\<close>

definition host_class :: "host \<Rightarrow> jsval \<Rightarrow> hclass" where
  "host_class H v =
     (case v of
        JBool b \<Rightarrow> ClsBoolean
      | JNum n \<Rightarrow> ClsNumber
      | JStr s \<Rightarrow> ClsString
      | HRef a \<Rightarrow> (case objects H a of Some ob \<Rightarrow> h_class ob | None \<Rightarrow> ClsObject)
      | NativeArr xs \<Rightarrow> ClsArray
      | ObjLit ps \<Rightarrow> ClsObject
      | ThrowNilPointerError \<Rightarrow> ClsFunction
      | IntFunc f t r m \<Rightarrow> ClsFunction
      | ExtFunc f t p m \<Rightarrow> ClsFunction
      | _ \<Rightarrow> ClsOther)"

definition is_Node :: "host \<Rightarrow> jsval \<Rightarrow> bool" where
  "is_Node H v =
     (hasNode H \<and>
      (case v of
         HRef a \<Rightarrow> (case objects H a of Some ob \<Rightarrow> h_isNode ob | None \<Rightarrow> False)
       | _ \<Rightarrow> False))"

definition index_prop :: "jsval list \<Rightarrow> jsstring \<Rightarrow> jsval" where
  "index_prop xs name =
     (if name = js ''length'' then JNum (jsint (int (length xs)))
      else (case find (\<lambda>i. js (dec_nat i) = name) [0..<length xs] of
              Some i \<Rightarrow> xs ! i
            | None \<Rightarrow> Undefined))"

text \<open>
  A property read \<open>v[name]\<close>: a \<open>TypeError\<close> (\<open>None\<close>) on undefined and null. Properties
  that a primitive or a runtime object inherits from its prototype are not modelled.
\<close>

definition get_prop :: "host \<Rightarrow> jsval \<Rightarrow> jsstring \<Rightarrow> jsval option" where
  "get_prop H v name =
     (case v of
        Undefined \<Rightarrow> None
      | Null \<Rightarrow> None
      | HRef a \<Rightarrow>
          (case objects H a of
             None \<Rightarrow> Some Undefined
           | Some ob \<Rightarrow>
               (case map_of (h_props ob) name of
                  Some x \<Rightarrow> Some x
                | None \<Rightarrow> (case map_of (h_hidden ob) name of Some x \<Rightarrow> Some x | None \<Rightarrow> Some Undefined)))
      | JStr s \<Rightarrow> Some (index_prop (map (\<lambda>c. JStr [c]) s) name)
      | NativeArr xs \<Rightarrow> Some (index_prop xs name)
      | StructV t fs \<Rightarrow> (case map_of fs name of Some x \<Rightarrow> Some x | None \<Rightarrow> Some Undefined)
      | ObjLit ps \<Rightarrow> (case map_of ps name of Some x \<Rightarrow> Some x | None \<Rightarrow> Some Undefined)
      | _ \<Rightarrow> Some Undefined)"

text \<open>
  Modelled from the spec: \<open>$mapArray\<close> and \<open>$keys\<close> are runtime functions outside these
  sources. \<open>$mapArray(v, f)\<close> applies \<open>f\<close> to \<open>v[0], ..., v[v.length - 1]\<close> and collects
  the results in a new array; these are the elements it reads. \<open>$keys(v)\<close> is the list
  of own enumerable keys of a truthy \<open>v\<close>, and empty otherwise.
\<close>

definition js_elements :: "host \<Rightarrow> jsval \<Rightarrow> jsval list" where
  "js_elements H v =
     (case get_prop H v (js ''length'') of
        Some (JNum (Fin False n 0)) \<Rightarrow>
          map (\<lambda>i. case get_prop H v (js (dec_nat i)) of Some x \<Rightarrow> x | None \<Rightarrow> Undefined) [0..<n]
      | _ \<Rightarrow> [])"

definition js_keys :: "host \<Rightarrow> jsval \<Rightarrow> jsstring list" where
  "js_keys H v =
     (if truthy v then
        (case v of
           HRef a \<Rightarrow> (case objects H a of Some ob \<Rightarrow> map fst (h_props ob) | None \<Rightarrow> [])
         | JStr s \<Rightarrow> map (\<lambda>i. js (dec_nat i)) [0..<length s]
         | NativeArr xs \<Rightarrow> map (\<lambda>i. js (dec_nat i)) [0..<length xs]
         | ObjLit ps \<Rightarrow> map fst ps
         | _ \<Rightarrow> [])
      else [])"

text \<open>
  The compiled side. Modelled from the spec: the constructors of the runtime's types are
  outside these sources. \<open>new t.ptr()\<close> allocates a zero-valued struct; an object
  \<open>new t(x)\<close> has \<open>constructor\<close> \<open>t\<close> and carries \<open>x\<close> as \<open>$val\<close>, except for the kinds
  whose objects are their own \<open>$val\<close>; a struct object is its own \<open>$val\<close> and its
  \<open>constructor\<close> is the pointer type.
\<close>

definition zero_value :: "runtime \<Rightarrow> tid \<Rightarrow> jsval" where
  "zero_value rt t =
     (case t_kind (tdesc rt t) of
        KBool \<Rightarrow> JBool False
      | KInt \<Rightarrow> JNum (jsint 0) | KInt8 \<Rightarrow> JNum (jsint 0) | KInt16 \<Rightarrow> JNum (jsint 0)
      | KInt32 \<Rightarrow> JNum (jsint 0)
      | KUint \<Rightarrow> JNum (jsint 0) | KUint8 \<Rightarrow> JNum (jsint 0) | KUint16 \<Rightarrow> JNum (jsint 0)
      | KUint32 \<Rightarrow> JNum (jsint 0) | KUintptr \<Rightarrow> JNum (jsint 0)
      | KFloat32 \<Rightarrow> JNum (jsint 0) | KFloat64 \<Rightarrow> JNum (jsint 0)
      | KString \<Rightarrow> JStr []
      | KInterface \<Rightarrow> IfaceNil
      | _ \<Rightarrow> ZeroOf t)"

definition new_ptr :: "runtime \<Rightarrow> tid \<Rightarrow> jsval" where
  "new_ptr rt t = StructV t (map (\<lambda>f. (f_prop f, zero_value rt (f_typ f))) (t_fields (tdesc rt t)))"

definition set_prop :: "jsval \<Rightarrow> jsstring \<Rightarrow> jsval \<Rightarrow> jsval" where
  "set_prop n name x =
     (case n of
        StructV t fs \<Rightarrow> StructV t (AList.update name x fs)
      | ObjLit ps \<Rightarrow> ObjLit (AList.update name x ps)
      | _ \<Rightarrow> n)"

definition go_constructor :: "runtime \<Rightarrow> jsval \<Rightarrow> tid option" where
  "go_constructor rt v =
     (case v of
        New t args \<Rightarrow> Some t
      | StructV t fs \<Rightarrow> Some (t_ptr (tdesc rt t))
      | NilOf t \<Rightarrow> Some t
      | _ \<Rightarrow> None)"

definition own_val :: "kind \<Rightarrow> bool" where
  "own_val k = (k = KInt64 \<or> k = KUint64 \<or> k = KComplex64 \<or> k = KComplex128 \<or> k = KPtr \<or> k = KSlice)"

definition dollar_val :: "runtime \<Rightarrow> jsval \<Rightarrow> jsval" where
  "dollar_val rt v =
     (case v of
        New t args \<Rightarrow> (if own_val (t_kind (tdesc rt t)) then v
                       else (case args of [] \<Rightarrow> Undefined | x # xs \<Rightarrow> x))
      | StructV t fs \<Rightarrow> v
      | _ \<Rightarrow> Undefined)"

definition dollar_get :: "jsval \<Rightarrow> jsval option" where
  "dollar_get v = (case v of PtrV x \<Rightarrow> Some x | StructV t fs \<Rightarrow> Some v | _ \<Rightarrow> None)"

definition new_jsObjectPtr :: "runtime \<Rightarrow> jsval \<Rightarrow> jsval" where
  "new_jsObjectPtr rt x = StructV (t_elem (tdesc rt (jsObjectPtr rt))) [(js ''object'', x)]"

subsection \<open>\<open>$externalize\<close>\<close>

text \<open>
  The maps created by the bridge, by identity: each is the entry list of a host
  \<open>Map\<close>, from key to the entry object \<open>{k, v}\<close>.
\<close>

type_synonym store = "(jsval \<times> jsval) list list"

definition needsExternalization :: "runtime \<Rightarrow> tid \<Rightarrow> bool" where
  "needsExternalization rt t =
     (case t_kind (tdesc rt t) of
        KBool \<Rightarrow> False
      | KInt \<Rightarrow> False | KInt8 \<Rightarrow> False | KInt16 \<Rightarrow> False | KInt32 \<Rightarrow> False
      | KUint \<Rightarrow> False | KUint8 \<Rightarrow> False | KUint16 \<Rightarrow> False | KUint32 \<Rightarrow> False
      | KUintptr \<Rightarrow> False
      | KFloat32 \<Rightarrow> False | KFloat64 \<Rightarrow> False
      | _ \<Rightarrow> t \<noteq> jsObjectPtr rt)"

text \<open>
  \<open>$externalizeFunction\<close>: the wrapper is the function value \<open>ExtFunc\<close>; the memo kept
  on the compiled function is not modelled.
\<close>

definition externalizeFunction :: "jsval \<Rightarrow> tid \<Rightarrow> bool \<Rightarrow> jsval \<Rightarrow> jsval res" where
  "externalizeFunction v t passThis makeWrapper =
     (if v = ThrowNilPointerError then Ok Null else Ok (ExtFunc v t passThis makeWrapper))"

text \<open>
  The local function \<open>searchJsObject(v, t)\<close> of \<open>$externalize\<close>; \<open>None\<close> is the marker
  \<open>noJsObject\<close>. The recursion follows the descriptors and is bounded by fuel.
\<close>

fun searchJsObject_ex :: "nat \<Rightarrow> runtime \<Rightarrow> host \<Rightarrow> jsval \<Rightarrow> tid \<Rightarrow> jsval option res" where
  "searchJsObject_ex 0 rt H v t = OutOfFuel"
| "searchJsObject_ex (Suc n) rt H v t =
     (if t = jsObjectPtr rt then Ok (Some v)
      else
        (case t_kind (tdesc rt t) of
           KPtr \<Rightarrow>
             (if v = NilOf t then Ok None
              else (case dollar_get v of
                      None \<Rightarrow> TypeError
                    | Some x \<Rightarrow> searchJsObject_ex n rt H x (t_elem (tdesc rt t))))
         | KStruct \<Rightarrow>
             (case t_fields (tdesc rt t) of
                [] \<Rightarrow> Ok None
              | f # fs \<Rightarrow>
                  (case get_prop H v (f_prop f) of
                     None \<Rightarrow> TypeError
                   | Some x \<Rightarrow> searchJsObject_ex n rt H x (f_typ f)))
         | KInterface \<Rightarrow>
             (case go_constructor rt v of
                None \<Rightarrow> (if v = Undefined \<or> v = Null then TypeError else Ok None)
              | Some c \<Rightarrow> searchJsObject_ex n rt H (dollar_val rt v) c)
         | _ \<Rightarrow> Ok None))"

definition slice_array :: "jsval \<Rightarrow> jsval" where
  "slice_array v = (case v of New c [arr] \<Rightarrow> arr | _ \<Rightarrow> Call ''$sliceToNativeArray'' [v])"

text \<open>
  \<open>$externalize\<close>, case by case. In each case \<open>self\<close> is the recursive call
  \<open>$externalize(_, _, makeWrapper)\<close>.
\<close>

type_synonym ext_call = "jsval \<Rightarrow> tid \<Rightarrow> jsval \<Rightarrow> jsval res"

text \<open>\<open>$mapArray(a, e => $externalize(e, t.elem, makeWrapper))\<close>\<close>

definition externalize_elems :: "ext_call \<Rightarrow> jsval list \<Rightarrow> tid \<Rightarrow> jsval \<Rightarrow> jsval res" where
  "externalize_elems self es elem makeWrapper =
     bind_res (mapM_res (\<lambda>u e. bind_res (self e elem makeWrapper) (\<lambda>x. Ok (x, u))) () es)
       (\<lambda>(xs, u). Ok (NativeArr xs))"

definition externalize_interface ::
  "ext_call \<Rightarrow> runtime \<Rightarrow> host \<Rightarrow> jsval \<Rightarrow> jsval \<Rightarrow> jsval res" where
  "externalize_interface self rt H v makeWrapper =
     (if v = IfaceNil then Ok Null
      else
        (case go_constructor rt v of
           None \<Rightarrow> (if v = Undefined \<or> v = Null then TypeError
                     else Fatal ''cannot externalize undefined'')
         | Some c \<Rightarrow>
             (if c = jsObjectPtr rt
              then (case get_prop H (dollar_val rt v) (js ''object'') of
                      None \<Rightarrow> TypeError
                    | Some x \<Rightarrow> Ok x)
              else self (dollar_val rt v) c makeWrapper)))"

definition externalize_map ::
  "ext_call \<Rightarrow> runtime \<Rightarrow> host \<Rightarrow> store \<Rightarrow> jsval \<Rightarrow> tid \<Rightarrow> jsval \<Rightarrow> jsval res" where
  "externalize_map self rt H st v t makeWrapper =
     (case v of
        GoMap a \<Rightarrow>
          foldM_res
            (\<lambda>(key, entry) m.
               (case get_prop H entry (js ''k'') of
                  None \<Rightarrow> TypeError
                | Some ek \<Rightarrow>
                    bind_res (self ek (t_key (tdesc rt t)) makeWrapper)
                      (\<lambda>xk.
                         (case get_prop H entry (js ''v'') of
                            None \<Rightarrow> TypeError
                          | Some ev \<Rightarrow>
                              bind_res (self ev (t_elem (tdesc rt t)) makeWrapper)
                                (\<lambda>xv. Ok (set_prop m (ToString H xk) xv))))))
            (if a < length st then st ! a else []) (ObjLit [])
      | _ \<Rightarrow>
          (case get_prop H v (js ''keys'') of
             None \<Rightarrow> TypeError
           | Some Undefined \<Rightarrow> Ok Null
           | Some k \<Rightarrow> Ok (Call ''$externalize'' [v])))"

definition externalize_slice ::
  "ext_call \<Rightarrow> runtime \<Rightarrow> host \<Rightarrow> jsval \<Rightarrow> tid \<Rightarrow> jsval \<Rightarrow> jsval res" where
  "externalize_slice self rt H v t makeWrapper =
     (if v = Undefined \<or> v = Null then TypeError
      else if (case go_constructor rt v of None \<Rightarrow> False | Some c \<Rightarrow> v = NilOf c) then Ok Null
      else if needsExternalization rt (t_elem (tdesc rt t))
      then externalize_elems self (js_elements H (slice_array v)) (t_elem (tdesc rt t)) makeWrapper
      else Ok (slice_array v))"

text \<open>
  The loop over the fields of a struct: one property per exported field, named by
  \<open>f.name\<close>.
\<close>

definition externalize_fields ::
  "ext_call \<Rightarrow> host \<Rightarrow> jsval \<Rightarrow> field list \<Rightarrow> jsval \<Rightarrow> jsval res" where
  "externalize_fields self H v fs makeWrapper =
     foldM_res
       (\<lambda>f ob.
          (if \<not> f_exported f then Ok ob
           else
             (case get_prop H v (f_prop f) of
                None \<Rightarrow> TypeError
              | Some x \<Rightarrow>
                  bind_res (self x (f_typ f) makeWrapper) (\<lambda>y. Ok (set_prop ob (f_name f) y)))))
       fs (ObjLit [])"

text \<open>
  The struct case; \<open>found\<close> is the result of \<open>searchJsObject(v, t)\<close>. A value of the
  time type becomes a host \<open>Date\<close>.
\<close>

definition externalize_struct ::
  "ext_call \<Rightarrow> jsval option res \<Rightarrow> runtime \<Rightarrow> host \<Rightarrow> jsval \<Rightarrow> tid \<Rightarrow> jsval \<Rightarrow> jsval res" where
  "externalize_struct self found rt H v t makeWrapper =
     (if timeTime rt \<noteq> None \<and> (v = Undefined \<or> v = Null) then TypeError
      else if timeTime rt \<noteq> None
              \<and> go_constructor rt v = Some (t_ptr (tdesc rt (the (timeTime rt))))
      then Ok (Call ''Date'' [v])
      else
        bind_res found
          (\<lambda>ob.
             (case ob of
                Some x \<Rightarrow> Ok x
              | None \<Rightarrow>
                  (if makeWrapper \<noteq> Undefined then Ok (Apply makeWrapper [v])
                   else externalize_fields self H v (t_fields (tdesc rt t)) makeWrapper))))"

definition externalize_body ::
  "ext_call \<Rightarrow> jsval option res \<Rightarrow> runtime \<Rightarrow> host \<Rightarrow> store \<Rightarrow> jsval \<Rightarrow> tid \<Rightarrow> jsval \<Rightarrow> jsval res" where
  "externalize_body self found rt H st v t makeWrapper =
     (if t = jsObjectPtr rt then Ok v
      else
        (case t_kind (tdesc rt t) of
           KBool \<Rightarrow> Ok v
         | KInt \<Rightarrow> Ok v | KInt8 \<Rightarrow> Ok v | KInt16 \<Rightarrow> Ok v | KInt32 \<Rightarrow> Ok v
         | KUint \<Rightarrow> Ok v | KUint8 \<Rightarrow> Ok v | KUint16 \<Rightarrow> Ok v | KUint32 \<Rightarrow> Ok v
         | KUintptr \<Rightarrow> Ok v
         | KFloat32 \<Rightarrow> Ok v | KFloat64 \<Rightarrow> Ok v
         | KInt64 \<Rightarrow> Ok (Call ''$flatten64'' [v])
         | KUint64 \<Rightarrow> Ok (Call ''$flatten64'' [v])
         | KArray \<Rightarrow>
             (if needsExternalization rt (t_elem (tdesc rt t))
              then externalize_elems self (js_elements H v) (t_elem (tdesc rt t)) makeWrapper
              else Ok v)
         | KFunc \<Rightarrow> externalizeFunction v t False makeWrapper
         | KInterface \<Rightarrow> externalize_interface self rt H v makeWrapper
         | KMap \<Rightarrow> externalize_map self rt H st v t makeWrapper
         | KPtr \<Rightarrow>
             (if v = NilOf t then Ok Null
              else (case dollar_get v of
                      None \<Rightarrow> TypeError
                    | Some x \<Rightarrow> self x (t_elem (tdesc rt t)) makeWrapper))
         | KSlice \<Rightarrow> externalize_slice self rt H v t makeWrapper
         | KString \<Rightarrow>
             (case v of
                JStr s \<Rightarrow> Ok (JStr (externalize_string s))
              | _ \<Rightarrow> TypeError)
         | KStruct \<Rightarrow> externalize_struct self found rt H v t makeWrapper
         | _ \<Rightarrow> Fatal (''cannot externalize '' @ t_string (tdesc rt t))))"

text \<open>The recursion of \<open>$externalize\<close>, bounded by fuel.\<close>

fun externalize :: "nat \<Rightarrow> runtime \<Rightarrow> host \<Rightarrow> store \<Rightarrow> jsval \<Rightarrow> tid \<Rightarrow> jsval \<Rightarrow> jsval res" where
  "externalize 0 rt H st v t makeWrapper = OutOfFuel"
| "externalize (Suc n) rt H st v t makeWrapper =
     externalize_body (externalize n rt H st) (searchJsObject_ex n rt H v t) rt H st v t makeWrapper"

subsection \<open>\<open>$internalize\<close>\<close>

text \<open>
  The cache \<open>seen\<close>: a host \<open>Map\<close> from descriptor to a \<open>Map\<close> from host value to the
  value already built for it. It is passed by reference, so a call returns it updated.
\<close>

type_synonym seen = "(tid \<times> (jsval \<times> jsval) list) list"

text \<open>
  The local function \<open>searchJsObject(t)\<close> of \<open>$internalize\<close>, for the host value \<open>v\<close>;
  \<open>None\<close> is the marker \<open>noJsObject\<close>.
\<close>

fun searchJsObject_in :: "nat \<Rightarrow> runtime \<Rightarrow> jsval \<Rightarrow> tid \<Rightarrow> jsval option res" where
  "searchJsObject_in 0 rt v t = OutOfFuel"
| "searchJsObject_in (Suc n) rt v t =
     (if t = jsObjectPtr rt then Ok (Some v)
      else if t = t_elem (tdesc rt (jsObjectPtr rt))
      then Fatal ''cannot internalize js.Object, use *js.Object instead''
      else
        (case t_kind (tdesc rt t) of
           KPtr \<Rightarrow> searchJsObject_in n rt v (t_elem (tdesc rt t))
         | KStruct \<Rightarrow>
             (case t_fields (tdesc rt t) of
                [] \<Rightarrow> Ok None
              | f # fs \<Rightarrow>
                  bind_res (searchJsObject_in n rt v (f_typ f))
                    (\<lambda>found.
                       (case found of
                          Some ob \<Rightarrow> Ok (Some (set_prop (new_ptr rt t) (f_prop f) ob))
                        | None \<Rightarrow> Ok None)))
         | _ \<Rightarrow> Ok None))"

definition seen_start :: "seen option \<Rightarrow> tid \<Rightarrow> seen" where
  "seen_start seen t =
     (let s = (case seen of None \<Rightarrow> [] | Some s \<Rightarrow> s)
      in if map_of s t = None then s @ [(t, [])] else s)"

definition seen_get :: "seen \<Rightarrow> tid \<Rightarrow> jsval \<Rightarrow> jsval option" where
  "seen_get s t v = (case map_of s t of None \<Rightarrow> None | Some m \<Rightarrow> map_of m v)"

definition seen_set :: "seen \<Rightarrow> tid \<Rightarrow> jsval \<Rightarrow> jsval \<Rightarrow> seen" where
  "seen_set s t v x =
     AList.update t (AList.update v x (case map_of s t of None \<Rightarrow> [] | Some m \<Rightarrow> m)) s"

definition internalize_int :: "host \<Rightarrow> kind \<Rightarrow> jsval \<Rightarrow> jsnum" where
  "internalize_int H k v =
     (case k of
        KInt \<Rightarrow> parseInt H v
      | KInt8 \<Rightarrow> js_sar (js_shl (parseInt H v) 24) 24
      | KInt16 \<Rightarrow> js_sar (js_shl (parseInt H v) 16) 16
      | KInt32 \<Rightarrow> js_sar (parseInt H v) 0
      | KUint \<Rightarrow> parseInt H v
      | KUint8 \<Rightarrow> js_shr (js_shl (parseInt H v) 24) 24
      | KUint16 \<Rightarrow> js_shr (js_shl (parseInt H v) 16) 16
      | KUint32 \<Rightarrow> js_shr (parseInt H v) 0
      | KUintptr \<Rightarrow> js_shr (parseInt H v) 0
      | _ \<Rightarrow> NaN)"

text \<open>
  \<open>$internalize\<close>, case by case. In each case \<open>self\<close> is the recursive call
  \<open>$internalize(_, _, recv, seen, makeWrapper)\<close>; it takes and returns the maps
  created so far. The calls written \<open>$internalize(e, t, makeWrapper)\<close> in the source
  pass \<open>makeWrapper\<close> in the place of \<open>recv\<close> and leave \<open>seen\<close> and \<open>makeWrapper\<close>
  undefined.
\<close>

type_synonym int_call =
  "store \<Rightarrow> jsval \<Rightarrow> tid \<Rightarrow> jsval \<Rightarrow> seen option \<Rightarrow> jsval \<Rightarrow> (jsval \<times> store \<times> seen) res"

definition seen_or_empty :: "seen option \<Rightarrow> seen" where
  "seen_or_empty seen = (case seen of None \<Rightarrow> [] | Some s \<Rightarrow> s)"

text \<open>\<open>$mapArray(v, e => $internalize(e, t.elem, makeWrapper))\<close>\<close>

definition internalize_elems ::
  "int_call \<Rightarrow> store \<Rightarrow> jsval list \<Rightarrow> tid \<Rightarrow> jsval \<Rightarrow> (jsval list \<times> store) res" where
  "internalize_elems self st es elem makeWrapper =
     mapM_res (\<lambda>s e. bind_res (self s e elem makeWrapper None Undefined) (\<lambda>(x, s', c). Ok (x, s')))
       st es"

definition internalize_array ::
  "int_call \<Rightarrow> runtime \<Rightarrow> host \<Rightarrow> store \<Rightarrow> jsval \<Rightarrow> tid \<Rightarrow> seen \<Rightarrow> jsval \<Rightarrow>
     (jsval \<times> store \<times> seen) res" where
  "internalize_array self rt H st v t seen2 makeWrapper =
     (if v = Null then Fatal (''cannot internalize null as a '' @ t_string (tdesc rt t))
      else if v = Undefined then Fatal (''cannot internalize undefined as a '' @ t_string (tdesc rt t))
      else if get_prop H v (js ''length'') \<noteq> Some (JNum (jsint (int (t_len (tdesc rt t)))))
      then Fatal ''got array with wrong size from JavaScript native''
      else bind_res (internalize_elems self st (js_elements H v) (t_elem (tdesc rt t)) makeWrapper)
             (\<lambda>(xs, st'). Ok (NativeArr xs, st', seen2)))"

definition internalize_slice ::
  "int_call \<Rightarrow> runtime \<Rightarrow> host \<Rightarrow> store \<Rightarrow> jsval \<Rightarrow> tid \<Rightarrow> seen \<Rightarrow> jsval \<Rightarrow>
     (jsval \<times> store \<times> seen) res" where
  "internalize_slice self rt H st v t seen2 makeWrapper =
     (if v = Null \<or> v = Undefined then Ok (ZeroOf t, st, seen2)
      else bind_res (internalize_elems self st (js_elements H v) (t_elem (tdesc rt t)) makeWrapper)
             (\<lambda>(xs, st'). Ok (New t [NativeArr xs], st', seen2)))"

text \<open>
  The pointer case returns for a pointer to a struct and otherwise falls through into
  the slice case.
\<close>

definition internalize_ptr ::
  "int_call \<Rightarrow> runtime \<Rightarrow> host \<Rightarrow> store \<Rightarrow> jsval \<Rightarrow> tid \<Rightarrow> seen \<Rightarrow> jsval \<Rightarrow>
     (jsval \<times> store \<times> seen) res" where
  "internalize_ptr self rt H st v t seen2 makeWrapper =
     (if t_kind (tdesc rt (t_elem (tdesc rt t))) = KStruct
      then bind_res (self st v (t_elem (tdesc rt t)) makeWrapper None Undefined)
             (\<lambda>(x, st', c). Ok (x, st', seen2))
      else internalize_slice self rt H st v t seen2 makeWrapper)"

definition internalize_interface ::
  "int_call \<Rightarrow> runtime \<Rightarrow> host \<Rightarrow> store \<Rightarrow> jsval \<Rightarrow> tid \<Rightarrow> jsval \<Rightarrow> seen \<Rightarrow> jsval \<Rightarrow>
     (jsval \<times> store \<times> seen) res" where
  "internalize_interface self rt H st v t recv seen2 makeWrapper =
     (if t_methods (tdesc rt t) \<noteq> [] then Fatal (''cannot internalize '' @ t_string (tdesc rt t))
      else if v = Null then Ok (IfaceNil, st, seen2)
      else if v = Undefined then Ok (new_jsObjectPtr rt Undefined, st, seen2)
      else
        (case host_class H v of
           ClsInt8Array \<Rightarrow> Ok (New (sliceType rt (ty_Int8 rt)) [v], st, seen2)
         | ClsInt16Array \<Rightarrow> Ok (New (sliceType rt (ty_Int16 rt)) [v], st, seen2)
         | ClsInt32Array \<Rightarrow> Ok (New (sliceType rt (ty_Int rt)) [v], st, seen2)
         | ClsUint8Array \<Rightarrow> Ok (New (sliceType rt (ty_Uint8 rt)) [v], st, seen2)
         | ClsUint16Array \<Rightarrow> Ok (New (sliceType rt (ty_Uint16 rt)) [v], st, seen2)
         | ClsUint32Array \<Rightarrow> Ok (New (sliceType rt (ty_Uint rt)) [v], st, seen2)
         | ClsFloat32Array \<Rightarrow> Ok (New (sliceType rt (ty_Float32 rt)) [v], st, seen2)
         | ClsFloat64Array \<Rightarrow> Ok (New (sliceType rt (ty_Float64 rt)) [v], st, seen2)
         | ClsArray \<Rightarrow>
             bind_res (self st v (sliceType rt (ty_emptyInterface rt)) makeWrapper None Undefined)
               (\<lambda>(x, st', c). Ok (x, st', seen2))
         | ClsBoolean \<Rightarrow> Ok (New (ty_Bool rt) [JBool (truthy v)], st, seen2)
         | ClsDate \<Rightarrow>
             (case timeTime rt of
                None \<Rightarrow> Ok (new_jsObjectPtr rt v, st, seen2)
              | Some tt \<Rightarrow>
                  bind_res (self st v tt makeWrapper None Undefined)
                    (\<lambda>(x, st', c). Ok (New tt [x], st', seen2)))
         | ClsFunction \<Rightarrow>
             bind_res (self st v (funcType rt [sliceType rt (ty_emptyInterface rt)] [jsObjectPtr rt] True)
                         makeWrapper None Undefined)
               (\<lambda>(x, st', c).
                  Ok (New (funcType rt [sliceType rt (ty_emptyInterface rt)] [jsObjectPtr rt] True) [x],
                      st', seen2))
         | ClsNumber \<Rightarrow> Ok (New (ty_Float64 rt) [JNum (parseFloat H v)], st, seen2)
         | ClsString \<Rightarrow>
             bind_res (self st v (ty_String rt) makeWrapper None Undefined)
               (\<lambda>(x, st', c). Ok (New (ty_String rt) [x], st', seen2))
         | _ \<Rightarrow>
             (if is_Node H v then Ok (new_jsObjectPtr rt v, st, seen2)
              else
                bind_res (self st v (mapType rt (ty_String rt) (ty_emptyInterface rt)) recv (Some seen2) makeWrapper)
                  (\<lambda>(x, st', seen3).
                     Ok (New (mapType rt (ty_String rt) (ty_emptyInterface rt)) [x], st', seen3)))))"

text \<open>
  The map case: the new map \<open>m\<close> is entered into the cache before its keys are
  visited; \<open>a\<close> is its identity.
\<close>

definition internalize_map ::
  "int_call \<Rightarrow> runtime \<Rightarrow> host \<Rightarrow> store \<Rightarrow> jsval \<Rightarrow> tid \<Rightarrow> jsval \<Rightarrow> seen \<Rightarrow> jsval \<Rightarrow>
     (jsval \<times> store \<times> seen) res" where
  "internalize_map self rt H st v t recv seen2 makeWrapper =
     bind_res
       (foldM_res
          (\<lambda>key (s, c).
             bind_res (self s (JStr key) (t_key (tdesc rt t)) recv (Some c) makeWrapper)
               (\<lambda>(k, s', c').
                  (case get_prop H v key of
                     None \<Rightarrow> TypeError
                   | Some x \<Rightarrow>
                       bind_res (self s' x (t_elem (tdesc rt t)) recv (Some c') makeWrapper)
                         (\<lambda>(y, s'', c'').
                            Ok (s''[length st :=
                                      AList.update (keyFor rt (t_key (tdesc rt t)) k)
                                        (ObjLit [(js ''k'', k), (js ''v'', y)]) (s'' ! length st)],
                                c'')))))
          (js_keys H v) (st @ [[]], seen_set seen2 t v (GoMap (length st))))
       (\<lambda>(st', seen'). Ok (GoMap (length st), st', seen'))"

text \<open>
  The loop over the fields of a struct, on the fresh struct \<open>n = new t.ptr()\<close>: each
  exported field is set from the property \<open>v[f.name]\<close>.
\<close>

definition internalize_fields ::
  "int_call \<Rightarrow> runtime \<Rightarrow> host \<Rightarrow> store \<Rightarrow> jsval \<Rightarrow> tid \<Rightarrow> jsval \<Rightarrow> seen \<Rightarrow> jsval \<Rightarrow>
     (jsval \<times> store \<times> seen) res" where
  "internalize_fields self rt H st v t recv seen2 makeWrapper =
     foldM_res
       (\<lambda>f (nn, s, c).
          (if \<not> f_exported f then Ok (nn, s, c)
           else
             (case get_prop H v (f_name f) of
                None \<Rightarrow> TypeError
              | Some jsProp \<Rightarrow>
                  bind_res (self s jsProp (f_typ f) recv (Some c) makeWrapper)
                    (\<lambda>(x, s', c'). Ok (set_prop nn (f_prop f) x, s', c')))))
       (t_fields (tdesc rt t)) (new_ptr rt t, st, seen2)"

text \<open>The struct case; \<open>found\<close> is the result of \<open>searchJsObject(t)\<close>.\<close>

definition internalize_struct ::
  "int_call \<Rightarrow> jsval option res \<Rightarrow> runtime \<Rightarrow> host \<Rightarrow> store \<Rightarrow> jsval \<Rightarrow> tid \<Rightarrow> jsval \<Rightarrow> seen \<Rightarrow>
     jsval \<Rightarrow> (jsval \<times> store \<times> seen) res" where
  "internalize_struct self found rt H st v t recv seen2 makeWrapper =
     bind_res found
       (\<lambda>ob.
          (case ob of
             Some x \<Rightarrow> Ok (x, st, seen2)
           | None \<Rightarrow> internalize_fields self rt H st v t recv seen2 makeWrapper))"

text \<open>The \<open>switch (t.kind)\<close>, reached when the cache \<open>seen2\<close> has no entry for \<open>(t, v)\<close>.\<close>

definition internalize_kind ::
  "int_call \<Rightarrow> jsval option res \<Rightarrow> runtime \<Rightarrow> host \<Rightarrow> store \<Rightarrow> jsval \<Rightarrow> tid \<Rightarrow> jsval \<Rightarrow> seen \<Rightarrow>
     jsval \<Rightarrow> (jsval \<times> store \<times> seen) res" where
  "internalize_kind self found rt H st v t recv seen2 makeWrapper =
     (case t_kind (tdesc rt t) of
        KBool \<Rightarrow> Ok (JBool (truthy v), st, seen2)
      | KInt \<Rightarrow> Ok (JNum (internalize_int H KInt v), st, seen2)
      | KInt8 \<Rightarrow> Ok (JNum (internalize_int H KInt8 v), st, seen2)
      | KInt16 \<Rightarrow> Ok (JNum (internalize_int H KInt16 v), st, seen2)
      | KInt32 \<Rightarrow> Ok (JNum (internalize_int H KInt32 v), st, seen2)
      | KUint \<Rightarrow> Ok (JNum (internalize_int H KUint v), st, seen2)
      | KUint8 \<Rightarrow> Ok (JNum (internalize_int H KUint8 v), st, seen2)
      | KUint16 \<Rightarrow> Ok (JNum (internalize_int H KUint16 v), st, seen2)
      | KUint32 \<Rightarrow> Ok (JNum (internalize_int H KUint32 v), st, seen2)
      | KUintptr \<Rightarrow> Ok (JNum (internalize_int H KUintptr v), st, seen2)
      | KInt64 \<Rightarrow> Ok (New t [JNum (jsint 0), v], st, seen2)
      | KUint64 \<Rightarrow> Ok (New t [JNum (jsint 0), v], st, seen2)
      | KFloat32 \<Rightarrow> Ok (JNum (parseFloat H v), st, seen2)
      | KFloat64 \<Rightarrow> Ok (JNum (parseFloat H v), st, seen2)
      | KArray \<Rightarrow> internalize_array self rt H st v t seen2 makeWrapper
      | KFunc \<Rightarrow> Ok (IntFunc v t recv makeWrapper, st, seen2)
      | KInterface \<Rightarrow> internalize_interface self rt H st v t recv seen2 makeWrapper
      | KMap \<Rightarrow> internalize_map self rt H st v t recv seen2 makeWrapper
      | KPtr \<Rightarrow> internalize_ptr self rt H st v t seen2 makeWrapper
      | KSlice \<Rightarrow> internalize_slice self rt H st v t seen2 makeWrapper
      | KString \<Rightarrow> Ok (JStr (internalize_string (ToString H v)), st, seen2)
      | KStruct \<Rightarrow> internalize_struct self found rt H st v t recv seen2 makeWrapper
      | _ \<Rightarrow> Fatal (''cannot internalize '' @ t_string (tdesc rt t)))"

text \<open>The checks made before the \<open>switch\<close>, in the order of the source.\<close>

definition internalize_body ::
  "int_call \<Rightarrow> jsval option res \<Rightarrow> runtime \<Rightarrow> host \<Rightarrow> store \<Rightarrow> jsval \<Rightarrow> tid \<Rightarrow> jsval \<Rightarrow>
     seen option \<Rightarrow> jsval \<Rightarrow> (jsval \<times> store \<times> seen) res" where
  "internalize_body self found rt H st v t recv seen makeWrapper =
     (if t = jsObjectPtr rt then Ok (v, st, seen_or_empty seen)
      else if t = t_elem (tdesc rt (jsObjectPtr rt))
      then Fatal ''cannot internalize js.Object, use *js.Object instead''
      else if truthy v \<and> get_prop H v (js ''__internal_object__'') \<noteq> Some Undefined
      then (case assertType rt (the (get_prop H v (js ''__internal_object__''))) t of
              None \<Rightarrow> GoPanic
            | Some x \<Rightarrow> Ok (x, st, seen_or_empty seen))
      else if timeTime rt = Some t
      then (if \<not> (v \<noteq> Null \<and> v \<noteq> Undefined \<and> host_class H v = ClsDate)
            then Fatal (''cannot internalize time.Time from '' @ typeof H v @ '', must be Date'')
            else Ok (Call ''time.Unix'' [v], st, seen_or_empty seen))
      else
        (case seen_get (seen_start seen t) t v of
           Some cached \<Rightarrow> Ok (cached, st, seen_start seen t)
         | None \<Rightarrow> internalize_kind self found rt H st v t recv (seen_start seen t) makeWrapper))"

text \<open>The recursion of \<open>$internalize\<close>, bounded by fuel.\<close>

fun internalize ::
  "nat \<Rightarrow> runtime \<Rightarrow> host \<Rightarrow> store \<Rightarrow> jsval \<Rightarrow> tid \<Rightarrow> jsval \<Rightarrow> seen option \<Rightarrow> jsval \<Rightarrow>
     (jsval \<times> store \<times> seen) res" where
  "internalize 0 rt H st v t recv seen makeWrapper = OutOfFuel"
| "internalize (Suc n) rt H st v t recv seen makeWrapper =
     internalize_body (internalize n rt H) (searchJsObject_in n rt v t) rt H st v t recv seen makeWrapper"

section \<open>Example inputs\<close>

text \<open>
  A function \<open>f\<close> declared at the top of package \<open>main\<close>, a type \<open>T\<close> declared in a
  statement of \<open>f\<close>, and a package context without dependencies.
\<close>

definition top_func :: gobject where
  "top_func = \<lparr>oid = 8, oname = ''f'', opkg = ''main'', oexported = False, okind = FuncObj,
     oparentIsPkgScope = True, onesting = None\<rparr>"

definition local_type :: gobject where
  "local_type = \<lparr>oid = 9, oname = ''T'', opkg = ''main'', oexported = True, okind = TypeNameObj,
     oparentIsPkgScope = False, onesting = Some 8\<rparr>"

definition pkg_main :: pkgContext where
  "pkg_main = \<lparr>minify = False, Pkg = ''main'', pkgVars = (\<lambda>_. None), escapingVars = (\<lambda>_. False),
     dceDeps = []\<rparr>"

text \<open>
  A runtime with the descriptors
  0 \<open>*js.Object\<close>, 1 \<open>js.Object\<close>, 2 \<open>int\<close>, 3 \<open>int8\<close>, 4 \<open>uint8\<close>, 5 \<open>string\<close>,
  6 \<open>interface{}\<close>, 7 an interface with the method \<open>String\<close>,
  8 \<open>struct {A int; b int}\<close>, 9 its pointer type,
  10 \<open>type T struct {Name string; Next *T}\<close>, 11 \<open>*T\<close>,
  12 \<open>struct {Object *js.Object}\<close>, 13 its pointer type,
  14 \<open>struct {Inner *struct {Object *js.Object}; n int}\<close>, 15 its pointer type,
  16 \<open>map[string]interface{}\<close>, 17 \<open>[]interface{}\<close>, 18 \<open>struct {}\<close>,
  19 \<open>struct {O js.Object}\<close>, 23 a named integer type with a method \<open>String\<close>,
  29 \<open>struct {A string; b int}\<close>, 30 its pointer type.
\<close>

definition td :: "kind \<Rightarrow> string \<Rightarrow> tdescr" where
  "td k s = \<lparr>t_kind = k, t_string = s, t_elem = 0, t_key = 0, t_len = 0, t_fields = [],
     t_methods = [], t_params = [], t_results = [], t_variadic = False, t_ptr = 0\<rparr>"

definition fld :: "string \<Rightarrow> bool \<Rightarrow> tid \<Rightarrow> field" where
  "fld s e t = \<lparr>f_prop = js s, f_name = js s, f_exported = e, f_typ = t\<rparr>"

definition example_tdesc :: "tid \<Rightarrow> tdescr" where
  "example_tdesc t =
     (if t = 0 then (td KPtr ''*js.Object'')\<lparr>t_elem := 1\<rparr>
      else if t = 1 then (td KStruct ''js.Object'')\<lparr>t_fields := [fld ''object'' False 0], t_ptr := 0\<rparr>
      else if t = 2 then td KInt ''int''
      else if t = 3 then td KInt8 ''int8''
      else if t = 4 then td KUint8 ''uint8''
      else if t = 5 then td KString ''string''
      else if t = 6 then td KInterface ''interface {}''
      else if t = 7 then (td KInterface ''fmt.Stringer'')\<lparr>t_methods := [js ''String'']\<rparr>
      else if t = 8 then (td KStruct ''main.S'')\<lparr>t_fields := [fld ''A'' True 2, fld ''b'' False 2], t_ptr := 9\<rparr>
      else if t = 9 then (td KPtr ''*main.S'')\<lparr>t_elem := 8\<rparr>
      else if t = 10 then (td KStruct ''main.T'')\<lparr>t_fields := [fld ''Name'' True 5, fld ''Next'' True 11], t_ptr := 11\<rparr>
      else if t = 11 then (td KPtr ''*main.T'')\<lparr>t_elem := 10\<rparr>
      else if t = 12 then (td KStruct ''main.Inner'')\<lparr>t_fields := [fld ''Object'' True 0], t_ptr := 13\<rparr>
      else if t = 13 then (td KPtr ''*main.Inner'')\<lparr>t_elem := 12\<rparr>
      else if t = 14 then (td KStruct ''main.Outer'')\<lparr>t_fields := [fld ''Inner'' True 13, fld ''n'' False 2], t_ptr := 15\<rparr>
      else if t = 15 then (td KPtr ''*main.Outer'')\<lparr>t_elem := 14\<rparr>
      else if t = 16 then (td KMap ''map[string]interface {}'')\<lparr>t_key := 5, t_elem := 6\<rparr>
      else if t = 17 then (td KSlice ''[]interface {}'')\<lparr>t_elem := 6\<rparr>
      else if t = 18 then td KStruct ''struct {}''
      else if t = 19 then (td KStruct ''main.V'')\<lparr>t_fields := [fld ''O'' True 1], t_ptr := 20\<rparr>
      else if t = 23 then td KInt ''main.SecretInt''
      else if t = 29 then (td KStruct ''main.R'')\<lparr>t_fields := [fld ''A'' True 5, fld ''b'' False 2], t_ptr := 30\<rparr>
      else if t = 30 then (td KPtr ''*main.R'')\<lparr>t_elem := 29\<rparr>
      else td KBool ''bool'')"

text \<open>A compiled value of the type 23, which has the method \<open>String\<close>.\<close>

definition go_stringer :: jsval where
  "go_stringer = New 23 [JNum (jsint 1)]"

text \<open>
  In the example runtime \<open>$assertType\<close> accepts \<open>go_stringer\<close> for the interface 7 and
  panics otherwise.
\<close>

definition rt0 :: runtime where
  "rt0 = \<lparr>tdesc = example_tdesc, jsObjectPtr = 0, timeTime = None,
     assertType = (\<lambda>x t. if x = go_stringer \<and> t = 7 then Some x else None),
     keyFor = (\<lambda>t k. k),
     sliceType = (\<lambda>e. 17), mapType = (\<lambda>k e. 16), funcType = (\<lambda>ps rs v. 21),
     ty_Bool = 22, ty_Int = 2, ty_Int8 = 3, ty_Int16 = 24, ty_Uint = 25, ty_Uint8 = 4,
     ty_Uint16 = 26, ty_Float32 = 27, ty_Float64 = 28, ty_String = 5, ty_emptyInterface = 6\<rparr>"

text \<open>
  Host objects: 100 is \<open>{}\<close>; 101 is \<open>o = {Name: "n", Next: o}\<close>; 102 carries the
  back-reference \<open>__internal_object__\<close> to \<open>go_stringer\<close>; 103 is \<open>o = {self: o}\<close>.
\<close>

definition hplain :: "(jsstring \<times> jsval) list \<Rightarrow> hobject" where
  "hplain ps = \<lparr>h_class = ClsObject, h_props = ps, h_hidden = [], h_isNode = False,
     h_string = js ''[object Object]''\<rparr>"

definition H0 :: host where
  "H0 = \<lparr>objects = (\<lambda>a. if a = 100 then Some (hplain [])
                        else if a = 101 then Some (hplain [(js ''Name'', JStr (js ''n'')), (js ''Next'', HRef 101)])
                        else if a = 102 then Some (hplain [(js ''__internal_object__'', go_stringer)])
                        else if a = 103 then Some (hplain [(js ''self'', HRef 103)])
                        else None),
     parseFloat = (\<lambda>v. NaN), hasNode = False\<rparr>"

text \<open>
  A runtime is well formed when \<open>$jsObjectPtr\<close> is a pointer descriptor, its element
  is a struct descriptor and the time type, when linked, is a struct descriptor other
  than the handle's element.
\<close>

definition wf_runtime :: "runtime \<Rightarrow> bool" where
  "wf_runtime rt =
     (t_kind (tdesc rt (jsObjectPtr rt)) = KPtr
      \<and> t_kind (tdesc rt (t_elem (tdesc rt (jsObjectPtr rt)))) = KStruct
      \<and> (case timeTime rt of None \<Rightarrow> True | Some tt \<Rightarrow> t_kind (tdesc rt tt) = KStruct))"

text \<open>No back-reference: the test \<open>v && v.__internal_object__ !== undefined\<close> fails.\<close>

definition no_backref :: "host \<Rightarrow> jsval \<Rightarrow> bool" where
  "no_backref H v = (\<not> (truthy v \<and> get_prop H v (js ''__internal_object__'') \<noteq> Some Undefined))"

text \<open>The cache has no entry for the pair, as in every top-level call.\<close>

definition not_cached :: "seen option \<Rightarrow> tid \<Rightarrow> jsval \<Rightarrow> bool" where
  "not_cached seen t v = (case seen of None \<Rightarrow> True | Some s \<Rightarrow> seen_get s t v = None)"

text \<open>A value whose constructor is the pointer type of the linked time type.\<close>

definition is_time_value :: "runtime \<Rightarrow> jsval \<Rightarrow> bool" where
  "is_time_value rt v =
     (case timeTime rt of
        None \<Rightarrow> False
      | Some tt \<Rightarrow> go_constructor rt v = Some (t_ptr (tdesc rt tt)))"


text \<open>
  The kinds that \<open>$externalize\<close> and \<open>$internalize\<close> convert without recursion and
  without a constructor of the runtime, and the conversions the two \<open>switch\<close> statements
  make for them: \<open>$externalize\<close> returns the value, or the UTF-16 form of a string;
  \<open>$internalize\<close> returns \<open>!!v\<close>, the integer conversion of the kind,
  \<open>parseFloat(v)\<close>, or the UTF-8 form of \<open>String(v)\<close>.
\<close>

definition plain_kind :: "kind \<Rightarrow> bool" where
  "plain_kind k =
     (k \<in> {KBool, KInt, KInt8, KInt16, KInt32, KUint, KUint8, KUint16, KUint32, KUintptr,
            KFloat32, KFloat64, KString})"

definition externalize_plain :: "kind \<Rightarrow> jsval \<Rightarrow> jsval" where
  "externalize_plain k x =
     (case k of
        KString \<Rightarrow> (case x of JStr s \<Rightarrow> JStr (externalize_string s) | _ \<Rightarrow> x)
      | _ \<Rightarrow> x)"

definition internalize_plain :: "host \<Rightarrow> kind \<Rightarrow> jsval \<Rightarrow> jsval" where
  "internalize_plain H k x =
     (case k of
        KBool \<Rightarrow> JBool (truthy x)
      | KString \<Rightarrow> JStr (internalize_string (ToString H x))
      | KFloat32 \<Rightarrow> JNum (parseFloat H x)
      | KFloat64 \<Rightarrow> JNum (parseFloat H x)
      | _ \<Rightarrow> JNum (internalize_int H k x))"

text \<open>
  First-field chains. \<open>type_chain rt ts\<close>: the descriptors \<open>ts\<close> lead from the first
  one to the host handle type, each step going from a struct to the type of its first
  field or from a pointer to its element, without passing through the handle's element
  type. \<open>adopt rt v ts\<close> is the value built along such a chain around the host value
  \<open>v\<close>: a fresh struct for each struct descriptor, with its first field set.
  \<open>value_chain rt H v ts\<close> follows the same steps on a compiled value, through the first
  field of each struct and the target of each pointer that is not nil, and yields the
  value found at the handle type.
\<close>

fun type_chain :: "runtime \<Rightarrow> tid list \<Rightarrow> bool" where
  "type_chain rt [] = False"
| "type_chain rt [t] = (t = jsObjectPtr rt)"
| "type_chain rt (t # u # ts) =
     (t \<noteq> jsObjectPtr rt \<and> t \<noteq> t_elem (tdesc rt (jsObjectPtr rt))
      \<and> (case t_kind (tdesc rt t) of
            KPtr \<Rightarrow> t_elem (tdesc rt t) = u
          | KStruct \<Rightarrow> (case t_fields (tdesc rt t) of [] \<Rightarrow> False | f # fs \<Rightarrow> f_typ f = u)
          | _ \<Rightarrow> False)
      \<and> type_chain rt (u # ts))"

fun adopt :: "runtime \<Rightarrow> jsval \<Rightarrow> tid list \<Rightarrow> jsval" where
  "adopt rt v [] = v"
| "adopt rt v [t] = v"
| "adopt rt v (t # u # ts) =
     (case t_kind (tdesc rt t) of
        KStruct \<Rightarrow> set_prop (new_ptr rt t) (f_prop (hd (t_fields (tdesc rt t)))) (adopt rt v (u # ts))
      | _ \<Rightarrow> adopt rt v (u # ts))"

fun value_chain :: "runtime \<Rightarrow> host \<Rightarrow> jsval \<Rightarrow> tid list \<Rightarrow> jsval option" where
  "value_chain rt H v [] = None"
| "value_chain rt H v [t] = (if t = jsObjectPtr rt then Some v else None)"
| "value_chain rt H v (t # u # ts) =
     (if t = jsObjectPtr rt then None
      else
        (case t_kind (tdesc rt t) of
           KPtr \<Rightarrow>
             (if v = NilOf t \<or> t_elem (tdesc rt t) \<noteq> u then None
              else (case dollar_get v of None \<Rightarrow> None | Some x \<Rightarrow> value_chain rt H x (u # ts)))
         | KStruct \<Rightarrow>
             (case t_fields (tdesc rt t) of
                [] \<Rightarrow> None
              | f # fs \<Rightarrow>
                  (if f_typ f \<noteq> u then None
                   else (case get_prop H v (f_prop f) of
                           None \<Rightarrow> None
                         | Some x \<Rightarrow> value_chain rt H x (u # ts))))
         | _ \<Rightarrow> None))"
section \<open>Properties of the name allocator\<close>

subsection \<open>Decimal numerals and rendered names\<close>

lemma is_digit_digit_char: "d < 10 \<Longrightarrow> is_digit (digit_char d)"
  by (simp add: is_digit_def digit_char_def)

lemma dec_nat_digits: "\<forall>c \<in> set (dec_nat n). is_digit c"
proof (induction n rule: dec_nat.induct)
  case (1 n)
  show ?case
  proof (cases "n < 10")
    case True
    then show ?thesis by (subst dec_nat.simps) (simp add: is_digit_digit_char)
  next
    case False
    with 1 show ?thesis by (subst dec_nat.simps) (simp add: is_digit_digit_char)
  qed
qed

lemma dec_nat_nonempty: "dec_nat n \<noteq> []"
  by (subst dec_nat.simps) simp

lemma undec_dec: "undec (dec_nat n) = n"
proof (induction n rule: dec_nat.induct)
  case (1 n)
  show ?case
  proof (cases "n < 10")
    case True
    then show ?thesis by (subst dec_nat.simps) (simp add: digit_char_def undec_def)
  next
    case False
    with 1 show ?thesis by (subst dec_nat.simps) (simp add: digit_char_def undec_def)
  qed
qed

lemma dec_nat_inj: "dec_nat a = dec_nat b \<Longrightarrow> a = b"
  by (metis undec_dec)

lemma not_digit_dollar: "\<not> is_digit CHR ''$''"
  by (simp add: is_digit_def)

lemma takeWhile_stop: "\<forall>x \<in> set xs. P x \<Longrightarrow> \<not> P y \<Longrightarrow> takeWhile P (xs @ y # ys) = xs"
  by (induction xs) auto

lemma dropWhile_stop: "\<forall>x \<in> set xs. P x \<Longrightarrow> \<not> P y \<Longrightarrow> dropWhile P (xs @ y # ys) = y # ys"
  by (induction xs) auto

lemma numeric_suffix_render: "numeric_suffix (b @ ''$'' @ dec_nat k)"
proof -
  have d: "\<forall>c \<in> set (rev (dec_nat k)). is_digit c" using dec_nat_digits by simp
  have r: "rev (b @ ''$'' @ dec_nat k) = rev (dec_nat k) @ (CHR ''$'' # rev b)" by simp
  have t: "takeWhile is_digit (rev (dec_nat k) @ (CHR ''$'' # rev b)) = rev (dec_nat k)"
    using d not_digit_dollar by (simp add: takeWhile_stop)
  have dr: "dropWhile is_digit (rev (dec_nat k) @ (CHR ''$'' # rev b)) = CHR ''$'' # rev b"
    using d not_digit_dollar by (simp add: dropWhile_stop)
  show ?thesis
    unfolding numeric_suffix_def Let_def r t dr using dec_nat_nonempty by simp
qed

lemma split_last_dollar:
  assumes "b @ ''$'' @ ds = b' @ ''$'' @ ds'"
    and "\<forall>c \<in> set ds. is_digit c" and "\<forall>c \<in> set ds'. is_digit c"
  shows "b = b' \<and> ds = ds'"
proof -
  have e: "rev ds @ (CHR ''$'' # rev b) = rev ds' @ (CHR ''$'' # rev b')"
    using arg_cong [OF assms(1), of rev] by simp
  have t1: "takeWhile is_digit (rev ds @ (CHR ''$'' # rev b)) = rev ds"
    using assms(2) not_digit_dollar by (simp add: takeWhile_stop)
  have t2: "takeWhile is_digit (rev ds' @ (CHR ''$'' # rev b')) = rev ds'"
    using assms(3) not_digit_dollar by (simp add: takeWhile_stop)
  from e t1 t2 have "rev ds = rev ds'" by simp
  then have "ds = ds'" by simp
  with assms(1) show ?thesis by simp
qed

lemma render_inj:
  assumes "\<not> numeric_suffix b" "\<not> numeric_suffix b'" "0 \<le> k" "0 \<le> k'"
    and "render b k = render b' k'"
  shows "b = b' \<and> k = k'"
proof (cases "k > 0"; cases "k' > 0")
  assume a: "k > 0" "k' > 0"
  with assms(5) have "b @ ''$'' @ dec_nat (nat k) = b' @ ''$'' @ dec_nat (nat k')"
    by (simp add: render_def fmt_d_def)
  from split_last_dollar [OF this] dec_nat_digits
  have "b = b'" "dec_nat (nat k) = dec_nat (nat k')" by auto
  with a dec_nat_inj show ?thesis by fastforce
next
  assume a: "k > 0" "\<not> k' > 0"
  with assms(5) have "b' = b @ ''$'' @ dec_nat (nat k)" by (simp add: render_def fmt_d_def)
  with numeric_suffix_render assms(2) show ?thesis by simp
next
  assume a: "\<not> k > 0" "k' > 0"
  with assms(5) have "b = b' @ ''$'' @ dec_nat (nat k')" by (simp add: render_def fmt_d_def)
  with numeric_suffix_render assms(1) show ?thesis by simp
next
  assume a: "\<not> k > 0" "\<not> k' > 0"
  with assms show ?thesis by (simp add: render_def)
qed

subsection \<open>Natural naming\<close>

lemma newVariable_natural_step:
  assumes ne: "name0 \<noteq> []"
    and safe: "\<not> numeric_suffix (encodeIdent name0)"
    and nonneg: "\<forall>b. 0 \<le> allVars fc b"
    and tab: "\<forall>b. allVars fc b \<noteq> 0 \<longrightarrow> \<not> numeric_suffix b"
    and bound: "allVars fc (encodeIdent name0) < 2 ^ 63 - 1"
  shows "\<exists>fc' ps'. newVariable False fc ps name0 p =
            Ret (render (encodeIdent name0) (allVars fc (encodeIdent name0)), fc', ps')
          \<and> allVars fc' = (allVars fc)(encodeIdent name0 := allVars fc (encodeIdent name0) + 1)
          \<and> render (encodeIdent name0) (allVars fc (encodeIdent name0)) \<notin> issued (allVars fc)
          \<and> issued (allVars fc') =
              insert (render (encodeIdent name0) (allVars fc (encodeIdent name0))) (issued (allVars fc))"
proof -
  define b where "b = encodeIdent name0"
  define n where "n = allVars fc b"
  have succ: "int64_succ n = n + 1" using bound by (simp add: int64_succ_def n_def b_def)
  have n0: "0 \<le> n" using nonneg by (simp add: n_def)
  have fresh: "render b n \<notin> issued (allVars fc)"
  proof
    assume "render b n \<in> issued (allVars fc)"
    then obtain b' k where k: "render b n = render b' k" "0 \<le> k" "k < allVars fc b'"
      by (auto simp: issued_def)
    then have "allVars fc b' \<noteq> 0" by auto
    with tab have "\<not> numeric_suffix b'" by simp
    from render_inj [OF _ this n0 k(2) k(1)] safe have "b = b'" "n = k" by (auto simp: b_def)
    with k(3) show False by (simp add: n_def)
  qed
  have iss: "issued ((allVars fc)(b := n + 1)) = insert (render b n) (issued (allVars fc))"
  proof (rule set_eqI)
    fix x
    show "x \<in> issued ((allVars fc)(b := n + 1)) \<longleftrightarrow> x \<in> insert (render b n) (issued (allVars fc))"
    proof
      assume "x \<in> issued ((allVars fc)(b := n + 1))"
      then obtain b' k where k: "x = render b' k" "0 \<le> k" "k < ((allVars fc)(b := n + 1)) b'"
        by (auto simp: issued_def)
      show "x \<in> insert (render b n) (issued (allVars fc))"
      proof (cases "b' = b")
        case True
        with k have "k < n \<or> k = n" by auto
        with k True show ?thesis by (auto simp: issued_def n_def)
      next
        case False
        with k show ?thesis by (auto simp: issued_def)
      qed
    next
      assume "x \<in> insert (render b n) (issued (allVars fc))"
      then consider "x = render b n" | "x \<in> issued (allVars fc)" by auto
      then show "x \<in> issued ((allVars fc)(b := n + 1))"
      proof cases
        case 1
        with n0 show ?thesis by (auto simp: issued_def)
      next
        case 2
        then obtain b' k where k: "x = render b' k" "0 \<le> k" "k < allVars fc b'"
          by (auto simp: issued_def)
        then have "k < ((allVars fc)(b := n + 1)) b'" by (auto simp: n_def)
        with k show ?thesis unfolding issued_def by blast
      qed
    qed
  qed
  show ?thesis
    using ne succ fresh iss
    by (cases p) (simp_all add: newVariable_def Let_def render_def b_def [symmetric] n_def [symmetric])
qed

lemma allocate_all_natural:
  assumes "\<forall>b. 0 \<le> allVars fc b \<and> allVars fc b + int (length reqs) < 2 ^ 63"
    and "\<forall>b. allVars fc b \<noteq> 0 \<longrightarrow> \<not> numeric_suffix b"
    and "\<forall>(name, p) \<in> set reqs. name \<noteq> [] \<and> \<not> numeric_suffix (encodeIdent name)"
  shows "\<exists>names fc' ps'. allocate_all False fc ps reqs = Ret (names, fc', ps')
           \<and> distinct names \<and> set names \<inter> issued (allVars fc) = {}"
  using assms
proof (induction reqs arbitrary: fc ps)
  case Nil
  then show ?case by simp
next
  case (Cons r reqs)
  obtain name p where r: "r = (name, p)" by (cases r)
  let ?b = "encodeIdent name"
  let ?v = "render ?b (allVars fc ?b)"
  have h: "name \<noteq> []" "\<not> numeric_suffix ?b" using Cons.prems(3) r by auto
  have nn: "\<forall>b. 0 \<le> allVars fc b" using Cons.prems(1) by simp
  have bd: "allVars fc ?b < 2 ^ 63 - 1" using Cons.prems(1) [rule_format, of ?b] by simp
  from newVariable_natural_step [OF h nn Cons.prems(2) bd, of ps p]
  obtain fc1 ps1 where s:
    "newVariable False fc ps name p = Ret (?v, fc1, ps1)"
    "allVars fc1 = (allVars fc)(?b := allVars fc ?b + 1)"
    "?v \<notin> issued (allVars fc)"
    "issued (allVars fc1) = insert ?v (issued (allVars fc))"
    by blast
  have p1: "\<forall>b. 0 \<le> allVars fc1 b \<and> allVars fc1 b + int (length reqs) < 2 ^ 63"
  proof
    fix b
    from Cons.prems(1) [rule_format, of b] show "0 \<le> allVars fc1 b \<and> allVars fc1 b + int (length reqs) < 2 ^ 63"
      by (auto simp: s(2))
  qed
  have p2: "\<forall>b. allVars fc1 b \<noteq> 0 \<longrightarrow> \<not> numeric_suffix b"
    using Cons.prems(2) h(2) by (auto simp: s(2))
  have p3: "\<forall>(name, p) \<in> set reqs. name \<noteq> [] \<and> \<not> numeric_suffix (encodeIdent name)"
    using Cons.prems(3) by simp
  from Cons.IH [OF p1 p2 p3, of ps1]
  obtain names fc2 ps2 where ih:
    "allocate_all False fc1 ps1 reqs = Ret (names, fc2, ps2)" "distinct names"
    "set names \<inter> issued (allVars fc1) = {}"
    by blast
  have "allocate_all False fc ps (r # reqs) = Ret (?v # names, fc2, ps2)"
    using s(1) ih(1) by (simp add: r)
  moreover have "distinct (?v # names)" using ih(2,3) s(4) by auto
  moreover have "set (?v # names) \<inter> issued (allVars fc) = {}" using ih(3) s(3,4) by auto
  ultimately show ?case by blast
qed

lemma enc_x: "encodeIdent ''x'' = ''x''" by code_simp
lemma enc_xd: "encodeIdent ''x$'' = ''x$24''" by code_simp
lemma fmt_1: "fmt_d 1 = ''1''" by code_simp
lemma fmt_2: "fmt_d 2 = ''2''" by code_simp
lemma fmt_24: "fmt_d 24 = ''24''" by code_simp

lemma three_x:
  "names_of (allocate_all False emptyContext ps [(''x'', False), (''x'', False), (''x'', False)])
    = Some [''x'', ''x$1'', ''x$2'']"
  by (simp add: names_of_def newVariable_def emptyContext_def Let_def enc_x int64_succ_def fmt_1 fmt_2)

lemma replicate_natural:
  assumes "0 \<le> allVars fc (encodeIdent name)" "allVars fc (encodeIdent name) + int n < 2 ^ 63" "name \<noteq> []"
  shows "names_of (allocate_all False fc ps (replicate n (name, p)))
       = Some (map (\<lambda>i. render (encodeIdent name) (allVars fc (encodeIdent name) + int i)) [0..<n])"
  using assms
proof (induction n arbitrary: fc ps)
  case 0
  then show ?case by (simp add: names_of_def)
next
  case (Suc n)
  let ?b = "encodeIdent name"
  let ?k = "allVars fc ?b"
  have succ: "int64_succ ?k = ?k + 1" using Suc.prems by (simp add: int64_succ_def)
  obtain fc1 ps1 where s: "newVariable False fc ps name p = Ret (render ?b ?k, fc1, ps1)"
    "allVars fc1 ?b = ?k + 1"
    using Suc.prems(3) succ by (cases p) (simp_all add: newVariable_def Let_def render_def)
  have "names_of (allocate_all False fc1 ps1 (replicate n (name, p)))
       = Some (map (\<lambda>i. render ?b (allVars fc1 ?b + int i)) [0..<n])"
    using Suc.prems s(2) by (intro Suc.IH) auto
  then have "names_of (allocate_all False fc ps (replicate (Suc n) (name, p)))
       = Some (render ?b ?k # map (\<lambda>i. render ?b (?k + 1 + int i)) [0..<n])"
    using s by (auto simp: names_of_def split: outcome.splits)
  moreover have "map (\<lambda>i. render ?b (?k + int i)) [0..<Suc n]
      = render ?b ?k # map (\<lambda>i. render ?b (?k + 1 + int i)) [0..<n]"
    by (simp add: upt_conv_Cons map_Suc_upt [symmetric] add.assoc del: upt_Suc)
  ultimately show ?case by simp
qed

lemma natural_collision: "map_option distinct (names_of (allocate_all False emptyContext []
     ((''x$'', False) # replicate 25 (''x'', False)))) = Some False"
proof -
  define fc1 where "fc1 = emptyContext\<lparr>allVars := (allVars emptyContext)(''x$24'' := 1), localVars := [''x$24'']\<rparr>"
  have s: "newVariable False emptyContext [] ''x$'' False = Ret (''x$24'', fc1, [])"
    by (simp add: newVariable_def enc_xd Let_def emptyContext_def int64_succ_def fc1_def)
  have a: "allVars fc1 (encodeIdent ''x'') = 0" by (simp add: fc1_def enc_x emptyContext_def)
  have r: "names_of (allocate_all False fc1 [] (replicate 25 (''x'', False)))
     = Some (map (\<lambda>i. render ''x'' (int i)) [0..<25])"
    using replicate_natural [of fc1 "''x''" 25 "[]" False] a by (simp add: enc_x)
  have m: "render ''x'' (int 24) \<in> set (map (\<lambda>i. render ''x'' (int i)) [0..<25])"
    unfolding set_map set_upt by (rule image_eqI [where x = 24]) simp_all
  have "render ''x'' (int 24) = ''x$24''" by (simp add: render_def fmt_24)
  with m have "\<not> distinct (''x$24'' # map (\<lambda>i. render ''x'' (int i)) [0..<25])" by simp
  then show ?thesis using s r by (auto simp: names_of_def split: outcome.splits)
qed

lemma enc_y: "encodeIdent ''y'' = ''y''" by code_simp

lemma not_suffix_x: "\<not> numeric_suffix ''x''" by code_simp

lemma not_suffix_y: "\<not> numeric_suffix ''y''" by code_simp

text \<open>
  C1, as amended. In natural naming mode, take any context whose table holds counts between
  0 and the top of the integer range and only names that do not end in \<open>$\<close> followed by
  decimal digits, and any sequence of requests with non-empty names whose encoded form
  does not end in \<open>$\<close> followed by decimal digits. Then every request returns, the
  returned names are pairwise distinct, and none of them is a name the table accounted
  for before. Requesting \<open>x\<close> three times in an empty context returns \<open>x\<close>, \<open>x$1\<close>,
  \<open>x$2\<close>.
\<close>

theorem newVariable_natural_distinct:
  assumes "\<forall>b. 0 \<le> allVars fc b \<and> allVars fc b + int (length reqs) < 2 ^ 63"
    and "\<forall>b. allVars fc b \<noteq> 0 \<longrightarrow> \<not> numeric_suffix b"
    and "\<forall>(name, p) \<in> set reqs. name \<noteq> [] \<and> \<not> numeric_suffix (encodeIdent name)"
  shows "(\<exists>names fc' ps'. allocate_all False fc ps reqs = Ret (names, fc', ps')
            \<and> distinct names \<and> set names \<inter> issued (allVars fc) = {})
         \<and> names_of (allocate_all False emptyContext ps
                       [(''x'', False), (''x'', False), (''x'', False)])
             = Some [''x'', ''x$1'', ''x$2'']"
  using allocate_all_natural [OF assms] three_x by simp

theorem newVariable_natural_distinct_witness:
  "\<exists>names fc' ps'.
      allocate_all False emptyContext [] [(''x'', False), (''y'', True), (''x'', False)]
        = Ret (names, fc', ps')
      \<and> distinct names \<and> set names \<inter> issued (allVars emptyContext) = {}"
proof -
  have h1: "\<forall>b. 0 \<le> allVars emptyContext b
      \<and> allVars emptyContext b + int (length [(''x'', False), (''y'', True), (''x'', False)]) < 2 ^ 63"
    by (simp add: emptyContext_def)
  have h2: "\<forall>b. allVars emptyContext b \<noteq> 0 \<longrightarrow> \<not> numeric_suffix b"
    by (simp add: emptyContext_def)
  have h3: "\<forall>(name, p) \<in> set [(''x'', False), (''y'', True), (''x'', False)].
      name \<noteq> [] \<and> \<not> numeric_suffix (encodeIdent name)"
    by (simp add: enc_x enc_y not_suffix_x not_suffix_y)
  from newVariable_natural_distinct [OF h1 h2 h3, of "[]"] show ?thesis by simp
qed

text \<open>
  C1 as stated fails: the encoded form of \<open>x$\<close> is \<open>x$24\<close>, which is also the name of
  the 25th request for \<open>x\<close>.
\<close>

theorem newVariable_natural_collision:
  "map_option distinct (names_of (allocate_all False emptyContext []
     ((''x$'', False) # replicate 25 (''x'', False)))) = Some False"
proof -
  define fc1 where "fc1 = emptyContext\<lparr>allVars := (allVars emptyContext)(''x$24'' := 1), localVars := [''x$24'']\<rparr>"
  have s: "newVariable False emptyContext [] ''x$'' False = Ret (''x$24'', fc1, [])"
    by (simp add: newVariable_def enc_xd Let_def emptyContext_def int64_succ_def fc1_def)
  have a: "allVars fc1 (encodeIdent ''x'') = 0" by (simp add: fc1_def enc_x emptyContext_def)
  have r: "names_of (allocate_all False fc1 [] (replicate 25 (''x'', False)))
     = Some (map (\<lambda>i. render ''x'' (int i)) [0..<25])"
    using replicate_natural [of fc1 "''x''" 25 "[]" False] a by (simp add: enc_x)
  have m: "render ''x'' (int 24) \<in> set (map (\<lambda>i. render ''x'' (int i)) [0..<25])"
    unfolding set_map set_upt by (rule image_eqI [where x = 24]) simp_all
  have "render ''x'' (int 24) = ''x$24''" by (simp add: render_def fmt_24)
  with m have "\<not> distinct (''x$24'' # map (\<lambda>i. render ''x'' (int i)) [0..<25])" by simp
  then show ?thesis using s r by (auto simp: names_of_def split: outcome.splits)
qed

subsection \<open>Minified naming\<close>

lemma minify_digits_acc: "minify_digits offset j name = minify_digits offset j [] @ name"
proof (induction j arbitrary: name rule: less_induct)
  case (less j)
  show ?case
  proof (cases "j div 26 = 0")
    case True
    then show ?thesis by (simp add: minify_digits.simps [of offset j])
  next
    case False
    then have lt: "j div 26 - 1 < j" by (simp add: div_eq_0_iff)
    have a: "minify_digits offset j name
        = minify_digits offset (j div 26 - 1) [] @ (char_of (offset + j mod 26) # name)"
      using False less [OF lt, of "char_of (offset + j mod 26) # name"]
      by (simp add: minify_digits.simps [of offset j name])
    have b: "minify_digits offset j []
        = minify_digits offset (j div 26 - 1) [] @ [char_of (offset + j mod 26)]"
      using False less [OF lt, of "[char_of (offset + j mod 26)]"]
      by (simp add: minify_digits.simps [of offset j "[]"])
    show ?thesis by (simp add: a b)
  qed
qed

lemma minify_value_digits:
  assumes "offset \<le> 230"
  shows "minify_value offset (minify_digits offset j []) = j + 1"
proof (induction j rule: less_induct)
  case (less j)
  have c: "(of_char (char_of (offset + j mod 26) :: char) :: nat) = offset + j mod 26"
    using assms by (simp add: of_char_of)
  show ?case
  proof (cases "j div 26 = 0")
    case True
    then have "j mod 26 = j" by (simp add: div_eq_0_iff)
    with True c show ?thesis
      by (simp add: minify_digits.simps [of offset j] minify_value_def)
  next
    case False
    then have lt: "j div 26 - 1 < j" by (simp add: div_eq_0_iff) 
    have b: "minify_digits offset j []
        = minify_digits offset (j div 26 - 1) [] @ [char_of (offset + j mod 26)]"
      using False minify_digits_acc [of offset "j div 26 - 1" "[char_of (offset + j mod 26)]"]
      by (simp add: minify_digits.simps [of offset j "[]"])
    have "minify_value offset (minify_digits offset j [])
        = minify_value offset (minify_digits offset (j div 26 - 1) []) * 26 + j mod 26 + 1"
      using c by (simp add: b minify_value_def)
    also have "\<dots> = (j div 26 - 1 + 1) * 26 + j mod 26 + 1" using less [OF lt] by simp
    also have "\<dots> = j + 1" using False by (simp add: div_eq_0_iff)
    finally show ?thesis .
  qed
qed

lemma minify_name_inj: "minify_name p i = minify_name p j \<Longrightarrow> i = j"
proof -
  assume e: "minify_name p i = minify_name p j"
  have o: "minify_offset p \<le> 230" by (simp add: minify_offset_def)
  have "i + 1 = minify_value (minify_offset p) (minify_name p i)"
    unfolding minify_name_def by (rule minify_value_digits [OF o, symmetric])
  also have "\<dots> = minify_value (minify_offset p) (minify_name p j)" by (simp only: e)
  also have "\<dots> = j + 1"
    unfolding minify_name_def by (rule minify_value_digits [OF o])
  finally show "i = j" by simp
qed

lemma minify_loop_finds:
  assumes "av (minify_name p j) = 0" "i \<le> j" "\<forall>k. i \<le> k \<and> k < j \<longrightarrow> av (minify_name p k) \<noteq> 0"
  shows "minify_loop av p i = Some (minify_name p j)"
  using assms
proof (induction "j - i" arbitrary: i)
  case 0
  then have "i = j" by simp
  with 0 show ?case by (subst minify_loop.simps) (simp add: Let_def)
next
  case (Suc d)
  then have "i < j" by simp
  with Suc.prems have nz: "av (minify_name p i) \<noteq> 0" by simp
  have "minify_loop av p (i + 1) = Some (minify_name p j)"
    using Suc by (intro Suc.hyps) auto
  with nz show ?case by (subst minify_loop.simps) (simp add: Let_def)
qed

lemma minify_free_exists:
  assumes "finite {b. av b \<noteq> 0}"
  shows "\<exists>j. av (minify_name p j) = 0"
proof (rule ccontr)
  assume "\<not> (\<exists>j. av (minify_name p j) = 0)"
  then have "range (minify_name p) \<subseteq> {b. av b \<noteq> 0}" by auto
  with assms have "finite (range (minify_name p))" by (rule rev_finite_subset)
  moreover have "inj (minify_name p)" by (rule injI) (rule minify_name_inj)
  ultimately have "finite (UNIV :: nat set)" by (rule finite_imageD)
  then show False by simp
qed

lemma minify_loop_least:
  assumes "finite {b. av b \<noteq> 0}"
  shows "\<exists>j. minify_loop av p 0 = Some (minify_name p j) \<and> av (minify_name p j) = 0
            \<and> (\<forall>k < j. av (minify_name p k) \<noteq> 0)"
proof -
  define j where "j = (LEAST j. av (minify_name p j) = 0)"
  from minify_free_exists [OF assms] have f: "av (minify_name p j) = 0"
    unfolding j_def by (rule LeastI_ex)
  have l: "\<forall>k < j. av (minify_name p k) \<noteq> 0"
    unfolding j_def using not_less_Least by blast
  from minify_loop_finds [of av p j 0] f l have "minify_loop av p 0 = Some (minify_name p j)" by simp
  with f l show ?thesis by blast
qed

lemma newVariable_minify_step:
  assumes "finite {b. allVars fc b \<noteq> 0}" "name0 \<noteq> []"
  shows "\<exists>j fc' ps'. newVariable True fc ps name0 p = Ret (minify_name p j, fc', ps')
           \<and> allVars fc (minify_name p j) = 0
           \<and> (\<forall>k < j. allVars fc (minify_name p k) \<noteq> 0)
           \<and> allVars fc' = (allVars fc)(minify_name p j := 1)"
proof -
  from minify_loop_least [OF assms(1), of p]
  obtain j where j: "minify_loop (allVars fc) p 0 = Some (minify_name p j)"
    "allVars fc (minify_name p j) = 0" "\<forall>k < j. allVars fc (minify_name p k) \<noteq> 0"
    by blast
  show ?thesis
    using j assms(2)
    by (cases p) (auto simp: newVariable_def Let_def int64_succ_def)
qed

lemma minify_name_letters:
  "\<forall>c \<in> set (minify_name p K). minify_offset p \<le> of_char c \<and> (of_char c :: nat) < minify_offset p + 26"
proof (induction K rule: less_induct)
  case (less K)
  let ?off = "minify_offset p"
  have c: "(of_char (char_of (?off + K mod 26) :: char) :: nat) = ?off + K mod 26"
    by (simp add: of_char_of minify_offset_def)
  show ?case
  proof (cases "K div 26 = 0")
    case True
    then show ?thesis
      using c by (simp add: minify_name_def minify_digits.simps [of ?off K])
  next
    case False
    then have lt: "K div 26 - 1 < K" by (simp add: div_eq_0_iff)
    have b: "minify_name p K = minify_name p (K div 26 - 1) @ [char_of (?off + K mod 26)]"
      using False minify_digits_acc [of ?off "K div 26 - 1" "[char_of (?off + K mod 26)]"]
      by (simp add: minify_name_def minify_digits.simps [of ?off K "[]"])
    show ?thesis using less [OF lt] c by (simp add: b)
  qed
qed

lemma minify_name_first:
  "minify_name True 0 = ''A''" "minify_name True 1 = ''B''" "minify_name True 25 = ''Z''"
  "minify_name True 26 = ''AA''" "minify_name True 27 = ''AB''"
  "minify_name False 0 = ''a''" "minify_name False 25 = ''z''" "minify_name False 26 = ''aa''"
  by code_simp+

lemma minify_name_nonempty: "minify_name p i \<noteq> []"
proof
  assume e: "minify_name p i = []"
  have o: "minify_offset p \<le> 230" by (simp add: minify_offset_def)
  have "minify_value (minify_offset p) (minify_name p i) = i + 1"
    unfolding minify_name_def by (rule minify_value_digits [OF o])
  then show False by (simp add: e minify_value_def)
qed

lemma minify_name_level: "minify_name p i = minify_name q j \<Longrightarrow> p = q"
proof (rule ccontr)
  assume e: "minify_name p i = minify_name q j" and n: "p \<noteq> q"
  obtain c cs where c: "minify_name p i = c # cs"
    using minify_name_nonempty [of p i] by (cases "minify_name p i") auto
  have a: "minify_offset p \<le> of_char c \<and> (of_char c :: nat) < minify_offset p + 26"
    using minify_name_letters [of p i] c by simp
  have b: "minify_offset q \<le> of_char c \<and> (of_char c :: nat) < minify_offset q + 26"
    using minify_name_letters [of q j] c e by simp
  from a b n show False by (cases p; cases q) (simp_all add: minify_offset_def)
qed

lemma minify_name_eq: "minify_name p i = minify_name q j \<longleftrightarrow> p = q \<and> i = j"
  using minify_name_level [of p i q j] minify_name_inj [of p i j] by auto

lemma newVariable_minify_exact:
  assumes "finite {b. allVars fc b \<noteq> 0}" "name0 \<noteq> []"
  shows "\<exists>j. newVariable True fc ps name0 p
             = Ret (minify_name p j,
                    (if p then fc\<lparr>allVars := (allVars fc)(minify_name p j := 1)\<rparr>
                     else fc\<lparr>allVars := (allVars fc)(minify_name p j := 1),
                              localVars := localVars fc @ [minify_name p j]\<rparr>),
                    (if p then map (\<lambda>c. c\<lparr>allVars := (allVars c)(minify_name p j := 1)\<rparr>) ps else ps))
           \<and> allVars fc (minify_name p j) = 0
           \<and> (\<forall>k < j. allVars fc (minify_name p k) \<noteq> 0)"
proof -
  from minify_loop_least [OF assms(1), of p]
  obtain j where j: "minify_loop (allVars fc) p 0 = Some (minify_name p j)"
    "allVars fc (minify_name p j) = 0" "\<forall>k < j. allVars fc (minify_name p k) \<noteq> 0"
    by blast
  have "newVariable True fc ps name0 p
             = Ret (minify_name p j,
                    (if p then fc\<lparr>allVars := (allVars fc)(minify_name p j := 1)\<rparr>
                     else fc\<lparr>allVars := (allVars fc)(minify_name p j := 1),
                              localVars := localVars fc @ [minify_name p j]\<rparr>),
                    (if p then map (\<lambda>c. c\<lparr>allVars := (allVars c)(minify_name p j := 1)\<rparr>) ps else ps))"
    using j(1,2) assms(2) by (simp add: newVariable_def Let_def int64_succ_def)
  with j(2,3) show ?thesis by blast
qed

lemma mark_step:
  "mark names (c\<lparr>allVars := (allVars c)(nm := 1)\<rparr>) = mark (nm # names) c"
  by (simp add: mark_def fun_eq_iff)

lemma mark_step_local:
  "(mark names (c\<lparr>allVars := (allVars c)(nm := 1), localVars := ls\<rparr>))\<lparr>localVars := ls'\<rparr>
     = (mark (nm # names) c)\<lparr>localVars := ls'\<rparr>"
  by (simp add: mark_def fun_eq_iff)

lemma mark_Nil: "mark [] c = c"
  by (simp add: mark_def)

lemma picked_Cons:
  "picked p ((n, q) # reqs) (x # xs) = (if q = p then x # picked p reqs xs else picked p reqs xs)"
  by (simp add: picked_def)

lemma picked_Nil: "picked p [] xs = []"
  by (simp add: picked_def)

lemma minified_Cons: "minified ((n, q) # reqs) (i # idxs) = minify_name q i # minified reqs idxs"
  by (simp add: minified_def)

lemma picked_minified:
  "length idxs = length reqs \<Longrightarrow> picked p reqs (minified reqs idxs) = map (minify_name p) (picked p reqs idxs)"
proof (induction reqs arbitrary: idxs)
  case Nil
  then show ?case by (simp add: picked_def)
next
  case (Cons r reqs)
  then obtain i js where i: "idxs = i # js" "length js = length reqs" by (cases idxs) auto
  obtain n q where r: "r = (n, q)" by (cases r)
  show ?case using Cons.IH [OF i(2)] by (simp add: i r minified_Cons picked_Cons)
qed

lemma allocate_all_minify:
  assumes "finite {b. allVars fc b \<noteq> 0}"
    and "\<forall>(name, q) \<in> set reqs. name \<noteq> []"
  shows "\<exists>idxs. allocate_all True fc ps reqs
             = Ret (minified reqs idxs,
                    (mark (minified reqs idxs) fc)
                      \<lparr>localVars := localVars fc @ picked False reqs (minified reqs idxs)\<rparr>,
                    map (mark (picked True reqs (minified reqs idxs))) ps)
           \<and> length idxs = length reqs
           \<and> (\<forall>p. sorted_wrt (<) (picked p reqs idxs)
                 \<and> (\<forall>i. i \<in> set (picked p reqs idxs) \<longleftrightarrow>
                          allVars fc (minify_name p i) = 0 \<and> (\<exists>j \<in> set (picked p reqs idxs). i \<le> j)))"
  using assms
proof (induction reqs arbitrary: fc ps)
  case Nil
  then show ?case by (simp add: minified_def picked_def mark_Nil)
next
  case (Cons r reqs)
  obtain name q where r: "r = (name, q)" by (cases r)
  have ne: "name \<noteq> []" using Cons.prems(2) r by simp
  from newVariable_minify_exact [OF Cons.prems(1) ne, of ps q]
  obtain j where s: "newVariable True fc ps name q
             = Ret (minify_name q j,
                    (if q then fc\<lparr>allVars := (allVars fc)(minify_name q j := 1)\<rparr>
                     else fc\<lparr>allVars := (allVars fc)(minify_name q j := 1),
                              localVars := localVars fc @ [minify_name q j]\<rparr>),
                    (if q then map (\<lambda>c. c\<lparr>allVars := (allVars c)(minify_name q j := 1)\<rparr>) ps else ps))"
    and z: "allVars fc (minify_name q j) = 0"
    and l: "\<forall>k < j. allVars fc (minify_name q k) \<noteq> 0"
    by blast
  define fc1 where "fc1 = (if q then fc\<lparr>allVars := (allVars fc)(minify_name q j := 1)\<rparr>
                     else fc\<lparr>allVars := (allVars fc)(minify_name q j := 1),
                              localVars := localVars fc @ [minify_name q j]\<rparr>)"
  define ps1 where "ps1 = (if q then map (\<lambda>c. c\<lparr>allVars := (allVars c)(minify_name q j := 1)\<rparr>) ps else ps)"
  have av1: "allVars fc1 = (allVars fc)(minify_name q j := 1)" by (simp add: fc1_def)
  have "{b. allVars fc1 b \<noteq> 0} \<subseteq> insert (minify_name q j) {b. allVars fc b \<noteq> 0}"
    by (auto simp: av1)
  then have f1: "finite {b. allVars fc1 b \<noteq> 0}"
    using Cons.prems(1) by (meson finite_insert finite_subset)
  have q1: "\<forall>(name, q) \<in> set reqs. name \<noteq> []" using Cons.prems(2) by simp
  from Cons.IH [OF f1 q1, of ps1]
  obtain idxs where run: "allocate_all True fc1 ps1 reqs
             = Ret (minified reqs idxs,
                    (mark (minified reqs idxs) fc1)
                      \<lparr>localVars := localVars fc1 @ picked False reqs (minified reqs idxs)\<rparr>,
                    map (mark (picked True reqs (minified reqs idxs))) ps1)"
    and len: "length idxs = length reqs"
    and ch: "\<forall>p. sorted_wrt (<) (picked p reqs idxs)
                 \<and> (\<forall>i. i \<in> set (picked p reqs idxs) \<longleftrightarrow>
                          allVars fc1 (minify_name p i) = 0 \<and> (\<exists>j \<in> set (picked p reqs idxs). i \<le> j))"
    by (elim exE conjE) (rule that)
  have avp: "allVars fc1 (minify_name p i) = (if p = q \<and> i = j then 1 else allVars fc (minify_name p i))"
    for p i
    by (simp add: av1 minify_name_eq)
  have st1: "(mark (minified reqs idxs) fc1)
                \<lparr>localVars := localVars fc1 @ picked False reqs (minified reqs idxs)\<rparr>
      = (mark (minified (r # reqs) (j # idxs)) fc)
                \<lparr>localVars := localVars fc @ picked False (r # reqs) (minified (r # reqs) (j # idxs))\<rparr>"
    by (cases q) (simp_all add: fc1_def r minified_Cons picked_Cons mark_def fun_eq_iff)
  have st2: "map (mark (picked True reqs (minified reqs idxs))) ps1
      = map (mark (picked True (r # reqs) (minified (r # reqs) (j # idxs)))) ps"
    by (cases q) (simp_all add: ps1_def r minified_Cons picked_Cons mark_def fun_eq_iff)
  have res: "allocate_all True fc ps (r # reqs)
             = Ret (minified (r # reqs) (j # idxs),
                    (mark (minified (r # reqs) (j # idxs)) fc)
                      \<lparr>localVars := localVars fc @ picked False (r # reqs) (minified (r # reqs) (j # idxs))\<rparr>,
                    map (mark (picked True (r # reqs) (minified (r # reqs) (j # idxs)))) ps)"
    using s run [unfolded st1 st2] by (simp add: r fc1_def ps1_def minified_Cons)
  have chr: "sorted_wrt (<) (picked p (r # reqs) (j # idxs))
                 \<and> (\<forall>i. i \<in> set (picked p (r # reqs) (j # idxs)) \<longleftrightarrow>
                          allVars fc (minify_name p i) = 0
                          \<and> (\<exists>j' \<in> set (picked p (r # reqs) (j # idxs)). i \<le> j'))" for p
  proof (cases "p = q")
    case False
    then have pk: "picked p (r # reqs) (j # idxs) = picked p reqs idxs" by (simp add: r picked_Cons)
    have eq: "allVars fc1 (minify_name p i) = allVars fc (minify_name p i)" for i
      using False by (simp add: avp)
    from ch have "sorted_wrt (<) (picked p reqs idxs)
                 \<and> (\<forall>i. i \<in> set (picked p reqs idxs) \<longleftrightarrow>
                          allVars fc1 (minify_name p i) = 0 \<and> (\<exists>j \<in> set (picked p reqs idxs). i \<le> j))"
      by (rule spec)
    then show ?thesis unfolding pk eq .
  next
    case True
    let ?xs = "picked q reqs idxs"
    have pk: "picked q (r # reqs) (j # idxs) = j # ?xs" by (simp add: r picked_Cons)
    have srt: "sorted_wrt (<) ?xs" using ch by blast
    have mem: "\<And>i. i \<in> set ?xs \<longleftrightarrow> allVars fc1 (minify_name q i) = 0 \<and> (\<exists>j \<in> set ?xs. i \<le> j)"
      using ch by blast
    have gt: "\<forall>i \<in> set ?xs. j < i"
    proof
      fix i assume "i \<in> set ?xs"
      with mem [of i] have z1: "allVars fc1 (minify_name q i) = 0" by blast
      then have "i \<noteq> j" using avp [of q i] by auto
      moreover have "\<not> i < j" using z1 l avp [of q i] by auto
      ultimately show "j < i" by simp
    qed
    have s2: "sorted_wrt (<) (j # ?xs)" using srt gt by simp
    have m2: "i \<in> set (j # ?xs) \<longleftrightarrow>
        allVars fc (minify_name q i) = 0 \<and> (\<exists>j' \<in> set (j # ?xs). i \<le> j')" for i
    proof
      assume "i \<in> set (j # ?xs)"
      then consider "i = j" | "i \<in> set ?xs" by auto
      then show "allVars fc (minify_name q i) = 0 \<and> (\<exists>j' \<in> set (j # ?xs). i \<le> j')"
      proof cases
        case 1
        with z show ?thesis by auto
      next
        case 2
        with mem [of i] have "allVars fc1 (minify_name q i) = 0" by blast
        moreover from 2 gt have "i \<noteq> j" by auto
        ultimately have "allVars fc (minify_name q i) = 0" using avp [of q i] by simp
        with 2 show ?thesis by auto
      qed
    next
      assume a: "allVars fc (minify_name q i) = 0 \<and> (\<exists>j' \<in> set (j # ?xs). i \<le> j')"
      then have nl: "\<not> i < j" using l by auto
      show "i \<in> set (j # ?xs)"
      proof (cases "i = j")
        case True
        then show ?thesis by simp
      next
        case False
        with nl have "j < i" by simp
        with a obtain j' where "j' \<in> set ?xs" "i \<le> j'" by auto
        moreover have "allVars fc1 (minify_name q i) = 0" using a False avp [of q i] by simp
        ultimately have "i \<in> set ?xs" using mem [of i] by blast
        then show ?thesis by simp
      qed
    qed
    show ?thesis unfolding True pk by (intro conjI allI) (rule s2, rule m2)
  qed
  have len2: "length (j # idxs) = length (r # reqs)" using len by simp
  have chr2: "\<forall>p. sorted_wrt (<) (picked p (r # reqs) (j # idxs))
                 \<and> (\<forall>i. i \<in> set (picked p (r # reqs) (j # idxs)) \<longleftrightarrow>
                          allVars fc (minify_name p i) = 0
                          \<and> (\<exists>j' \<in> set (picked p (r # reqs) (j # idxs)). i \<le> j'))"
    by (rule allI) (rule chr)
  show ?case
    apply (rule exI [of _ "j # idxs"])
    apply (rule conjI, rule res)
    apply (rule conjI, rule len2)
    apply (rule chr2)
    done
qed


lemma length_ranks: "length (ranks u l ps) = length ps"
  by (induction ps arbitrary: u l) simp_all

lemma minified_inj:
  "length xs = length reqs \<Longrightarrow> length ys = length reqs
     \<Longrightarrow> minified reqs xs = minified reqs ys \<Longrightarrow> xs = ys"
proof (induction reqs arbitrary: xs ys)
  case Nil
  then show ?case by simp
next
  case (Cons r reqs)
  obtain x xs' where x: "xs = x # xs'" "length xs' = length reqs" using Cons.prems(1) by (cases xs) auto
  obtain y ys' where y: "ys = y # ys'" "length ys' = length reqs" using Cons.prems(2) by (cases ys) auto
  obtain n q where r: "r = (n, q)" by (cases r)
  from Cons.prems(3) have h: "minify_name q x = minify_name q y" "minified reqs xs' = minified reqs ys'"
    by (simp_all add: x y r minified_Cons)
  from h(1) have "x = y" by (rule minify_name_inj)
  moreover from Cons.IH [OF x(2) y(2) h(2)] have "xs' = ys'" .
  ultimately show ?case by (simp add: x y)
qed

lemma allocate_all_ranks:
  assumes "\<forall>b. allVars fc b \<noteq> 0 \<longleftrightarrow> b \<in> minify_name True ` {..<u} \<union> minify_name False ` {..<l}"
    and "\<forall>(name, q) \<in> set reqs. name \<noteq> []"
  shows "\<exists>fc' ps'. allocate_all True fc ps reqs
           = Ret (minified reqs (ranks u l (map snd reqs)), fc', ps')"
  using assms
proof (induction reqs arbitrary: fc ps u l)
  case Nil
  then show ?case by (simp add: minified_def)
next
  case (Cons r reqs)
  obtain name q where r: "r = (name, q)" by (cases r)
  have ne: "name \<noteq> []" using Cons.prems(2) r by simp
  have nz: "allVars fc (minify_name p k) \<noteq> 0 \<longleftrightarrow> k < (if p then u else l)" for p k
  proof -
    from Cons.prems(1)
    have "allVars fc (minify_name p k) \<noteq> 0
        \<longleftrightarrow> minify_name p k \<in> minify_name True ` {..<u} \<union> minify_name False ` {..<l}"
      by (rule spec)
    also have "\<dots> \<longleftrightarrow> k < (if p then u else l)"
      by (cases p) (auto simp: image_iff minify_name_eq)
    finally show ?thesis .
  qed
  have "{b. allVars fc b \<noteq> 0} = minify_name True ` {..<u} \<union> minify_name False ` {..<l}"
  proof (rule set_eqI)
    fix b
    from Cons.prems(1)
    have "allVars fc b \<noteq> 0 \<longleftrightarrow> b \<in> minify_name True ` {..<u} \<union> minify_name False ` {..<l}"
      by (rule spec)
    then show "b \<in> {b. allVars fc b \<noteq> 0}
        \<longleftrightarrow> b \<in> minify_name True ` {..<u} \<union> minify_name False ` {..<l}"
      by (simp only: mem_Collect_eq)
  qed
  then have fin: "finite {b. allVars fc b \<noteq> 0}" by simp
  from newVariable_minify_exact [OF fin ne, of ps q]
  obtain j where s: "newVariable True fc ps name q
             = Ret (minify_name q j,
                    (if q then fc\<lparr>allVars := (allVars fc)(minify_name q j := 1)\<rparr>
                     else fc\<lparr>allVars := (allVars fc)(minify_name q j := 1),
                              localVars := localVars fc @ [minify_name q j]\<rparr>),
                    (if q then map (\<lambda>c. c\<lparr>allVars := (allVars c)(minify_name q j := 1)\<rparr>) ps else ps))"
    and z: "allVars fc (minify_name q j) = 0"
    and lo: "\<forall>k < j. allVars fc (minify_name q k) \<noteq> 0"
    by blast
  let ?m = "if q then u else l"
  have "\<not> j < ?m" using z nz [of q j] by blast
  moreover have "\<not> ?m < j"
  proof
    assume "?m < j"
    with lo have "allVars fc (minify_name q ?m) \<noteq> 0" by blast
    with nz [of q ?m] show False by simp
  qed
  ultimately have j: "j = ?m" by simp
  define fc1 where "fc1 = (if q then fc\<lparr>allVars := (allVars fc)(minify_name q j := 1)\<rparr>
                     else fc\<lparr>allVars := (allVars fc)(minify_name q j := 1),
                              localVars := localVars fc @ [minify_name q j]\<rparr>)"
  define ps1 where "ps1 = (if q then map (\<lambda>c. c\<lparr>allVars := (allVars c)(minify_name q j := 1)\<rparr>) ps else ps)"
  define u1 where "u1 = (if q then Suc u else u)"
  define l1 where "l1 = (if q then l else Suc l)"
  have av1: "allVars fc1 = (allVars fc)(minify_name q j := 1)" by (simp add: fc1_def)
  have inv1: "\<forall>b. allVars fc1 b \<noteq> 0
      \<longleftrightarrow> b \<in> minify_name True ` {..<u1} \<union> minify_name False ` {..<l1}"
  proof
    fix b
    from Cons.prems(1)
    have o: "allVars fc b \<noteq> 0 \<longleftrightarrow> b \<in> minify_name True ` {..<u} \<union> minify_name False ` {..<l}"
      by (rule spec)
    have "allVars fc1 b \<noteq> 0 \<longleftrightarrow> b = minify_name q j \<or> allVars fc b \<noteq> 0"
      by (simp add: av1)
    also have "\<dots> \<longleftrightarrow> b = minify_name q j
        \<or> b \<in> minify_name True ` {..<u} \<union> minify_name False ` {..<l}"
      by (simp only: o)
    also have "\<dots> \<longleftrightarrow> b \<in> minify_name True ` {..<u1} \<union> minify_name False ` {..<l1}"
      by (cases q) (auto simp: j u1_def l1_def lessThan_Suc)
    finally show "allVars fc1 b \<noteq> 0
      \<longleftrightarrow> b \<in> minify_name True ` {..<u1} \<union> minify_name False ` {..<l1}" .
  qed
  have q1: "\<forall>(name, q) \<in> set reqs. name \<noteq> []" using Cons.prems(2) by simp
  from Cons.IH [OF inv1 q1, of ps1]
  obtain fc2 ps2 where run: "allocate_all True fc1 ps1 reqs
      = Ret (minified reqs (ranks u1 l1 (map snd reqs)), fc2, ps2)"
    by blast
  have rk: "ranks u l (map snd (r # reqs)) = j # ranks u1 l1 (map snd reqs)"
    by (simp add: r j u1_def l1_def)
  have "allocate_all True fc ps (r # reqs)
      = Ret (minified (r # reqs) (ranks u l (map snd (r # reqs))), fc2, ps2)"
    unfolding rk using s run by (simp add: r fc1_def ps1_def minified_Cons)
  then show ?case by blast
qed


text \<open>
  C7, as amended. In minified mode the alphabet is chosen by the level of the request, not
  by the scope that makes it: a package-level request (\<open>pkgLevel\<close> true) takes the first
  candidate of \<open>A, B, ..., Z, AA, AB, ...\<close> whose count in the table of the requesting
  context is zero, a local request the first such candidate of \<open>a, b, ..., z, aa, ...\<close>.
  Take a context whose table has finitely many non-zero entries and any sequence of
  requests with non-empty names. Then every request returns, and

  \<^item> for each level, the indices of the candidates returned for the requests of that
    level increase strictly, and an index is used exactly when its candidate has count 0
    in the table and it is not beyond the last index used: candidates present in the
    table are skipped, and no free candidate is;
  \<^item> in a context with an empty table, the K-th request of a level returns the K-th
    candidate of the alphabet of that level;
  \<^item> the table of the context holds count 1 for every name returned, the local names
    are appended to the list of local variables, and the table of every ancestor holds
    count 1 for every package-level name returned and is otherwise unchanged;
  \<^item> the K-th candidate is a string of the 26 letters whose value as a bijective
    base-26 numeral is \<open>K + 1\<close>.
\<close>

theorem newVariable_minified_sequence:
  assumes "finite {b. allVars fc b \<noteq> 0}"
    and "\<forall>(name, q) \<in> set reqs. name \<noteq> []"
  shows "\<exists>idxs. allocate_all True fc ps reqs
             = Ret (minified reqs idxs,
                    (mark (minified reqs idxs) fc)
                      \<lparr>localVars := localVars fc @ picked False reqs (minified reqs idxs)\<rparr>,
                    map (mark (picked True reqs (minified reqs idxs))) ps)
           \<and> length idxs = length reqs
           \<and> (\<forall>p. sorted_wrt (<) (picked p reqs idxs)
                 \<and> (\<forall>i. i \<in> set (picked p reqs idxs) \<longleftrightarrow>
                          allVars fc (minify_name p i) = 0 \<and> (\<exists>j \<in> set (picked p reqs idxs). i \<le> j)))
           \<and> ((\<forall>b. allVars fc b = 0) \<longrightarrow> idxs = ranks 0 0 (map snd reqs))
           \<and> (\<forall>p K. minify_value (minify_offset p) (minify_name p K) = K + 1
                 \<and> (\<forall>c \<in> set (minify_name p K).
                        minify_offset p \<le> of_char c \<and> (of_char c :: nat) < minify_offset p + 26))
           \<and> minify_name True 0 = ''A'' \<and> minify_name True 1 = ''B'' \<and> minify_name True 25 = ''Z''
           \<and> minify_name True 26 = ''AA'' \<and> minify_name True 27 = ''AB''
           \<and> minify_name False 0 = ''a'' \<and> minify_name False 25 = ''z'' \<and> minify_name False 26 = ''aa''"
proof -
  from allocate_all_minify [OF assms, of ps]
  obtain idxs where run: "allocate_all True fc ps reqs
             = Ret (minified reqs idxs,
                    (mark (minified reqs idxs) fc)
                      \<lparr>localVars := localVars fc @ picked False reqs (minified reqs idxs)\<rparr>,
                    map (mark (picked True reqs (minified reqs idxs))) ps)"
    and len: "length idxs = length reqs"
    and ch: "\<forall>p. sorted_wrt (<) (picked p reqs idxs)
                 \<and> (\<forall>i. i \<in> set (picked p reqs idxs) \<longleftrightarrow>
                          allVars fc (minify_name p i) = 0 \<and> (\<exists>j \<in> set (picked p reqs idxs). i \<le> j))"
    by (elim exE conjE) (rule that)
  have e: "(\<forall>b. allVars fc b = 0) \<longrightarrow> idxs = ranks 0 0 (map snd reqs)"
  proof
    assume z: "\<forall>b. allVars fc b = 0"
    have inv: "\<forall>b. allVars fc b \<noteq> 0
        \<longleftrightarrow> b \<in> minify_name True ` {..<0} \<union> minify_name False ` {..<0}"
      using z by simp
    from allocate_all_ranks [OF inv assms(2), of ps]
    obtain fc' ps' where "allocate_all True fc ps reqs
        = Ret (minified reqs (ranks 0 0 (map snd reqs)), fc', ps')" by blast
    with run have m: "minified reqs idxs = minified reqs (ranks 0 0 (map snd reqs))" by simp
    have l2: "length (ranks 0 0 (map snd reqs)) = length reqs" by (simp add: length_ranks)
    from minified_inj [OF len l2 m] show "idxs = ranks 0 0 (map snd reqs)" .
  qed
  have v: "\<forall>p K. minify_value (minify_offset p) (minify_name p K) = K + 1
      \<and> (\<forall>c \<in> set (minify_name p K).
            minify_offset p \<le> of_char c \<and> (of_char c :: nat) < minify_offset p + 26)"
  proof (intro allI conjI)
    fix p K
    have o: "minify_offset p \<le> 230" by (simp add: minify_offset_def)
    show "minify_value (minify_offset p) (minify_name p K) = K + 1"
      unfolding minify_name_def by (rule minify_value_digits [OF o])
    show "\<forall>c \<in> set (minify_name p K).
            minify_offset p \<le> of_char c \<and> (of_char c :: nat) < minify_offset p + 26"
      by (rule minify_name_letters)
  qed
  have f: "minify_name True 0 = ''A'' \<and> minify_name True 1 = ''B'' \<and> minify_name True 25 = ''Z''
           \<and> minify_name True 26 = ''AA'' \<and> minify_name True 27 = ''AB''
           \<and> minify_name False 0 = ''a'' \<and> minify_name False 25 = ''z'' \<and> minify_name False 26 = ''aa''"
    by (simp only: minify_name_first simp_thms)
  show ?thesis
    apply (rule exI [of _ idxs])
    apply (rule conjI, rule run)
    apply (rule conjI, rule len)
    apply (rule conjI, rule ch)
    apply (rule conjI, rule e)
    apply (rule conjI, rule v)
    apply (rule f)
    done
qed

lemma mixed_names:
  "minified [(''foo'', True), (''bar'', False), (''baz'', True)]
      (ranks 0 0 (map snd [(''foo'', True), (''bar'', False), (''baz'', True)])) = [''A'', ''a'', ''B'']"
  using minify_name_first(2) by (simp add: minified_def minify_name_first)

theorem newVariable_minified_sequence_witness:
  "\<exists>fc' ps'. allocate_all True emptyContext [emptyContext]
        [(''foo'', True), (''bar'', False), (''baz'', True)]
      = Ret ([''A'', ''a'', ''B''], fc', ps')
     \<and> localVars fc' = [''a'']
     \<and> map (\<lambda>b. allVars fc' b) [''A'', ''a'', ''B'', ''C''] = [1, 1, 1, 0]
     \<and> map (\<lambda>c. map (allVars c) [''A'', ''a'', ''B'', ''C'']) ps' = [[1, 0, 1, 0]]"
proof -
  let ?reqs = "[(''foo'', True), (''bar'', False), (''baz'', True)]"
  have h1: "finite {b. allVars emptyContext b \<noteq> 0}" by (simp add: emptyContext_def)
  have h2: "\<forall>(name, q) \<in> set ?reqs. name \<noteq> []" by simp
  have z: "\<forall>b. allVars emptyContext b = 0" by (simp add: emptyContext_def)
  from newVariable_minified_sequence [OF h1 h2, of "[emptyContext]"]
  obtain idxs where
    a: "allocate_all True emptyContext [emptyContext] ?reqs
             = Ret (minified ?reqs idxs,
                    (mark (minified ?reqs idxs) emptyContext)
                      \<lparr>localVars := localVars emptyContext @ picked False ?reqs (minified ?reqs idxs)\<rparr>,
                    map (mark (picked True ?reqs (minified ?reqs idxs))) [emptyContext])"
    and b: "(\<forall>b. allVars emptyContext b = 0) \<longrightarrow> idxs = ranks 0 0 (map snd ?reqs)"
    by (elim exE conjE) (rule that)
  from b z have i: "idxs = ranks 0 0 (map snd ?reqs)" by blast
  have n: "minified ?reqs idxs = [''A'', ''a'', ''B'']" unfolding i by (rule mixed_names)
  have pf: "picked False ?reqs [''A'', ''a'', ''B''] = [''a'']"
    and pt: "picked True ?reqs [''A'', ''a'', ''B''] = [''A'', ''B'']"
    by (simp_all add: picked_def)
  show ?thesis
    unfolding a n pf pt
    by (intro exI conjI, rule refl) (simp_all add: mark_def emptyContext_def)
qed

text \<open>
  C7 as stated fails, because the alphabet follows the request and not the scope. In the
  context of the package (no parent), a package-level, a local and a package-level
  request return \<open>A\<close>, \<open>a\<close>, \<open>B\<close>: the second allocation is not \<open>B\<close> and the third is
  not \<open>C\<close>. In the context of a function (one parent), a package-level request returns
  \<open>A\<close>, not \<open>a\<close>.
\<close>

theorem newVariable_minified_by_request:
  "names_of (allocate_all True emptyContext []
      [(''foo'', True), (''bar'', False), (''baz'', True)]) = Some [''A'', ''a'', ''B'']
   \<and> names_of (allocate_all True emptyContext [emptyContext] [(''foo'', True)]) = Some [''A'']"
proof -
  have inv: "\<forall>b. allVars emptyContext b \<noteq> 0
        \<longleftrightarrow> b \<in> minify_name True ` {..<0} \<union> minify_name False ` {..<0}"
    by (simp add: emptyContext_def)
  have h2: "\<forall>(name, q) \<in> set [(''foo'', True), (''bar'', False), (''baz'', True)]. name \<noteq> []"
    by simp
  have h3: "\<forall>(name, q) \<in> set [(''foo'', True)]. name \<noteq> []" by simp
  from allocate_all_ranks [OF inv h2, of "[]"]
  have a: "names_of (allocate_all True emptyContext []
      [(''foo'', True), (''bar'', False), (''baz'', True)]) = Some [''A'', ''a'', ''B'']"
    unfolding mixed_names by (auto simp: names_of_def)
  from allocate_all_ranks [OF inv h3, of "[emptyContext]"]
  have b: "names_of (allocate_all True emptyContext [emptyContext] [(''foo'', True)]) = Some [''A'']"
    by (auto simp: names_of_def minified_def minify_name_first)
  from a b show ?thesis by blast
qed
section \<open>Dependencies recorded by \<open>instName\<close>\<close>

lemma newVariable_returns:
  assumes "name \<noteq> []" "finite {b. allVars fc b \<noteq> 0}"
  shows "\<exists>v fc' ps'. newVariable m fc ps name p = Ret (v, fc', ps')"
proof (cases m)
  case True
  then have m: "m = True" by simp
  from newVariable_minify_step [OF assms(2,1), of ps p] show ?thesis unfolding m by blast
next
  case False
  then show ?thesis using assms(1) by (simp add: newVariable_def Let_def)
qed

lemma objectName_deps:
  assumes "oname o' \<noteq> []" "finite {b. allVars fc b \<noteq> 0}"
  shows "\<exists>name pc' fc' ps'. objectName pc fc ps o' = Ret (name, pc', fc', ps')
           \<and> dceDeps pc' = dceDeps pc @
                (if isPkgLevel o'
                 then [(oid o', if nestedIn o' fc then TArgs (fc_instance fc) else [], [])]
                 else [])"
proof (cases "isPkgLevel o'")
  case True
  from newVariable_returns [OF assms, of "minify pc" ps True]
  obtain v fc1 ps1 where n: "newVariable (minify pc) fc ps (oname o') True = Ret (v, fc1, ps1)"
    by blast
  show ?thesis
    using True
    by (cases "assignedObjectName ps o'"; cases "objectNames fc (oid o')")
       (simp_all add: objectName_def Let_def n DeclareDCEDep_def)
next
  case False
  from newVariable_returns [OF assms, of "minify pc" ps False]
  obtain v fc1 ps1 where n: "newVariable (minify pc) fc ps (oname o') False = Ret (v, fc1, ps1)"
    by blast
  show ?thesis
    using False
    by (cases "assignedObjectName ps o'"; cases "objectNames fc (oid o')")
       (simp_all add: objectName_def Let_def n DeclareDCEDep_def)
qed

text \<open>
  C9. \<open>instName\<close> names an instance of a function or type. Named types are always at
  package level for \<open>isPkgLevel\<close>, also when they are declared in a statement of a
  function, and so are the functions declared at the top of a package. For every
  instance of such an object, trivial or not, the call returns (when the object has a name
  and the table of the context is finite) and records, after the edges recorded before:

  \<^item> the edge that \<open>objectName\<close> declares to the object, with the type arguments of the
    current context as nesting arguments when the object is nested in the function of the
    context, and no direct type arguments;
  \<^item> for an instance that is not trivial, a second edge with exactly the nesting and
    direct type arguments of the instance.

  So an edge to the instance itself is among the edges recorded; for a trivial instance
  this reads the edge of \<open>objectName\<close>, whose nesting arguments are those of the context,
  and these are empty whenever a trivial instance is nested in the context.
\<close>

theorem instName_records_dependency:
  assumes "Object inst = Some o'" and "isPkgLevel o'"
    and "oname o' \<noteq> []" and "finite {b. allVars fc b \<noteq> 0}"
  shows "\<exists>name pc' fc' ps'.
           instName instID label pc fc ps inst = Ret (name, pc', fc', ps')
           \<and> dceDeps pc' = dceDeps pc
                @ [(oid o', if nestedIn o' fc then TArgs (fc_instance fc) else [], [])]
                @ (if IsTrivial inst then [] else [(oid o', TNest inst, TArgs inst)])
           \<and> ((IsTrivial inst \<and> nestedIn o' fc \<longrightarrow> TArgs (fc_instance fc) = [])
                \<longrightarrow> (oid o', TNest inst, TArgs inst) \<in> set (drop (length (dceDeps pc)) (dceDeps pc')))"
proof -
  from objectName_deps [OF assms(3,4), of pc ps]
  obtain name pc1 fc1 ps1 where ob: "objectName pc fc ps o' = Ret (name, pc1, fc1, ps1)"
    and d: "dceDeps pc1 = dceDeps pc @
              (if isPkgLevel o'
               then [(oid o', if nestedIn o' fc then TArgs (fc_instance fc) else [], [])]
               else [])"
    by blast
  show ?thesis
  proof (cases "IsTrivial inst")
    case True
    then have e: "TNest inst = []" "TArgs inst = []" by (simp_all add: IsTrivial_def)
    from True ob d assms(1,2) show ?thesis by (simp add: instName_def e)
  next
    case False
    with ob d assms(1,2) show ?thesis
      by (simp add: instName_def Let_def DeclareDCEDep_def)
  qed
qed

theorem instName_records_dependency_witness:
  "(\<exists>name pc' fc' ps'.
      instName (\<lambda>_. 0) (\<lambda>_. []) pkg_main emptyContext []
          \<lparr>Object = Some top_func, TArgs = [], TNest = []\<rparr> = Ret (name, pc', fc', ps')
      \<and> dceDeps pc' = [(8, [], [])])
   \<and> (\<exists>name pc' fc' ps'.
      instName (\<lambda>_. 0) (\<lambda>_. []) pkg_main
          (emptyContext\<lparr>fc_instance := \<lparr>Object = Some top_func, TArgs = [1], TNest = []\<rparr>\<rparr>) []
          \<lparr>Object = Some local_type, TArgs = [], TNest = [1]\<rparr> = Ret (name, pc', fc', ps')
      \<and> dceDeps pc' = [(9, [1], []), (9, [1], [])])"
proof -
  let ?i1 = "\<lparr>Object = Some top_func, TArgs = [], TNest = []\<rparr>"
  let ?i2 = "\<lparr>Object = Some local_type, TArgs = [], TNest = [1]\<rparr>"
  let ?fc = "emptyContext\<lparr>fc_instance := \<lparr>Object = Some top_func, TArgs = [1], TNest = []\<rparr>\<rparr>"
  have a1: "Object ?i1 = Some top_func" and a2: "Object ?i2 = Some local_type" by simp_all
  have p1: "isPkgLevel top_func" and p2: "isPkgLevel local_type"
    by (simp_all add: isPkgLevel_def top_func_def local_type_def)
  have n1: "oname top_func \<noteq> []" and n2: "oname local_type \<noteq> []"
    by (simp_all add: top_func_def local_type_def)
  have f1: "finite {b. allVars emptyContext b \<noteq> 0}" and f2: "finite {b. allVars ?fc b \<noteq> 0}"
    by (simp_all add: emptyContext_def)
  have e: "\<not> nestedIn top_func emptyContext" "nestedIn local_type ?fc"
    "IsTrivial ?i1" "\<not> IsTrivial ?i2" "oid top_func = 8" "oid local_type = 9"
    "dceDeps pkg_main = []" "TArgs (fc_instance ?fc) = [1]"
    by (simp_all add: nestedIn_def top_func_def local_type_def emptyContext_def IsTrivial_def
        pkg_main_def)
  from instName_records_dependency [OF a1 p1 n1 f1, of "\<lambda>_. 0" "\<lambda>_. []" pkg_main "[]"]
  have c1: "\<exists>name pc' fc' ps'.
      instName (\<lambda>_. 0) (\<lambda>_. []) pkg_main emptyContext [] ?i1 = Ret (name, pc', fc', ps')
      \<and> dceDeps pc' = [(8, [], [])]"
    by (simp only: e if_True if_False append_Nil append_Nil2) blast
  from instName_records_dependency [OF a2 p2 n2 f2, of "\<lambda>_. 0" "\<lambda>_. []" pkg_main "[]"]
  have c2: "\<exists>name pc' fc' ps'.
      instName (\<lambda>_. 0) (\<lambda>_. []) pkg_main ?fc [] ?i2 = Ret (name, pc', fc', ps')
      \<and> dceDeps pc' = [(9, [1], []), (9, [1], [])]"
    by (simp only: e if_True if_False append_Nil append_Nil2 Instance.simps append.simps) blast
  from c1 c2 show ?thesis by blast
qed
section \<open>Properties of the value bridge\<close>

subsection \<open>Reaching the \<open>switch\<close> of \<open>$internalize\<close>\<close>

lemma seen_get_start: "not_cached seen t v \<Longrightarrow> seen_get (seen_start seen t) t v = None"
proof (cases seen)
  case None
  then show ?thesis by (simp add: seen_get_def seen_start_def)
next
  case (Some s)
  assume "not_cached seen t v"
  with Some have g: "seen_get s t v = None" by (simp add: not_cached_def)
  show ?thesis
  proof (cases "map_of s t")
    case None
    with Some show ?thesis by (simp add: seen_get_def seen_start_def map_add_def)
  next
    case (Some m)
    with \<open>seen = Some s\<close> g show ?thesis by (simp add: seen_get_def seen_start_def)
  qed
qed

lemma not_cached_start:
  assumes "\<forall>t v. not_cached seen t v"
  shows "\<forall>t v. not_cached (Some (seen_start seen t')) t v"
proof (intro allI)
  fix t v
  show "not_cached (Some (seen_start seen t')) t v"
  proof (cases seen)
    case None
    then show ?thesis by (simp add: not_cached_def seen_start_def seen_get_def)
  next
    case (Some s)
    with assms have g: "seen_get s t v = None" by (simp add: not_cached_def)
    show ?thesis
    proof (cases "map_of s t'")
      case None
      with Some g show ?thesis
        by (auto simp: not_cached_def seen_start_def seen_get_def map_add_def split: option.splits)
    next
      case (Some m)
      with \<open>seen = Some s\<close> g show ?thesis by (simp add: not_cached_def seen_start_def)
    qed
  qed
qed

lemma seen_start_None: "seen_start None t = [(t, [])]"
  by (simp add: seen_start_def)

lemma internalize_reaches_switch:
  assumes "t \<noteq> jsObjectPtr rt" "t \<noteq> t_elem (tdesc rt (jsObjectPtr rt))"
    and "no_backref H v" "timeTime rt \<noteq> Some t" "not_cached seen t v"
  shows "internalize (Suc n) rt H st v t recv seen mk =
     internalize_kind (internalize n rt H) (searchJsObject_in n rt v t) rt H st v t recv
       (seen_start seen t) mk"
proof -
  have b: "\<not> (truthy v \<and> get_prop H v (js ''__internal_object__'') \<noteq> Some Undefined)"
    using assms(3) by (simp add: no_backref_def)
  show ?thesis
    using assms(1,2,4) seen_get_start [OF assms(5)]
    by (simp add: internalize_body_def b del: not_Some_eq)
qed

lemma wf_runtime_kinds:
  assumes "wf_runtime rt" "t_kind (tdesc rt t) \<noteq> KPtr" "t_kind (tdesc rt t) \<noteq> KStruct"
  shows "t \<noteq> jsObjectPtr rt" "t \<noteq> t_elem (tdesc rt (jsObjectPtr rt))" "timeTime rt \<noteq> Some t"
  using assms by (auto simp: wf_runtime_def split: option.splits)

lemmas ex_defs = rt0_def H0_def example_tdesc_def td_def fld_def hplain_def

lemma wf_rt0: "wf_runtime rt0"
  by (simp add: wf_runtime_def ex_defs)

subsection \<open>The handle's element descriptor\<close>

text \<open>
  C10. In a well-formed runtime, internalizing any host value into the element
  descriptor of \<open>$jsObjectPtr\<close> is the fatal error "cannot internalize js.Object, use
  *js.Object instead", whatever the receiver, cache and wrapper factory; the search for
  a host handle raises the same error when it is at that descriptor, and when it is at a
  struct descriptor whose first field has that descriptor.
\<close>

theorem internalize_handle_element_fatal:
  assumes "wf_runtime rt"
  shows "internalize (Suc n) rt H st v (t_elem (tdesc rt (jsObjectPtr rt))) recv seen mk
           = Fatal ''cannot internalize js.Object, use *js.Object instead''
       \<and> searchJsObject_in (Suc n) rt v (t_elem (tdesc rt (jsObjectPtr rt)))
           = Fatal ''cannot internalize js.Object, use *js.Object instead''
       \<and> (t_kind (tdesc rt t) = KStruct \<and> t \<noteq> t_elem (tdesc rt (jsObjectPtr rt))
            \<and> t_fields (tdesc rt t) = f # fs \<and> f_typ f = t_elem (tdesc rt (jsObjectPtr rt))
          \<longrightarrow> searchJsObject_in (Suc (Suc n)) rt v t
                = Fatal ''cannot internalize js.Object, use *js.Object instead'')"
proof -
  have ne: "t_elem (tdesc rt (jsObjectPtr rt)) \<noteq> jsObjectPtr rt"
    using assms by (auto simp: wf_runtime_def)
  have a: "internalize (Suc n) rt H st v (t_elem (tdesc rt (jsObjectPtr rt))) recv seen mk
           = Fatal ''cannot internalize js.Object, use *js.Object instead''"
    using ne by (simp add: internalize_body_def)
  have b: "searchJsObject_in (Suc m) rt v (t_elem (tdesc rt (jsObjectPtr rt)))
           = Fatal ''cannot internalize js.Object, use *js.Object instead''" for m
    using ne by simp
  have c: "searchJsObject_in (Suc (Suc n)) rt v t
                = Fatal ''cannot internalize js.Object, use *js.Object instead''"
    if "t_kind (tdesc rt t) = KStruct" "t \<noteq> t_elem (tdesc rt (jsObjectPtr rt))"
       "t_fields (tdesc rt t) = f # fs" "f_typ f = t_elem (tdesc rt (jsObjectPtr rt))"
  proof -
    have "t \<noteq> jsObjectPtr rt" using that(1) assms by (auto simp: wf_runtime_def)
    then show ?thesis
      using that ne by (simp add: bind_res_def)
  qed
  from a b [of n] c show ?thesis by blast
qed

theorem internalize_handle_element_fatal_witness:
  "internalize (Suc 0) rt0 H0 [] (HRef 100) (t_elem (tdesc rt0 (jsObjectPtr rt0))) Undefined None Undefined
     = Fatal ''cannot internalize js.Object, use *js.Object instead''
   \<and> searchJsObject_in (Suc (Suc 0)) rt0 (HRef 100) 19
     = Fatal ''cannot internalize js.Object, use *js.Object instead''"
proof -
  have k: "t_kind (tdesc rt0 19) = KStruct \<and> 19 \<noteq> t_elem (tdesc rt0 (jsObjectPtr rt0))
      \<and> t_fields (tdesc rt0 19) = fld ''O'' True 1 # [] \<and> f_typ (fld ''O'' True 1) = t_elem (tdesc rt0 (jsObjectPtr rt0))"
    by (simp add: ex_defs)
  from internalize_handle_element_fatal [OF wf_rt0, of 0 H0 "[]" "HRef 100" Undefined None Undefined
      19 "fld ''O'' True 1" "[]"] k
  show ?thesis by blast
qed

subsection \<open>Interfaces\<close>

lemma no_backref_falsy: "no_backref H Null" "no_backref H Undefined"
  by (simp_all add: no_backref_def truthy_def)

text \<open>
  C8, as amended. In a well-formed runtime, take an interface descriptor \<open>t\<close>.

  \<^item> A host value that carries an internal back-reference (\<open>v\<close> is truthy and
    \<open>v.__internal_object__\<close> is not undefined) is never a fatal error, whatever the method
    set and the cache: the wrapped value is asserted against \<open>t\<close> with \<open>$assertType\<close>,
    and it is returned when the assertion succeeds; the call panics when it fails.
  \<^item> A host value without back-reference, for which the cache of the call has no entry
    under \<open>t\<close> (as in every top-level call), is the fatal error "cannot internalize"
    followed by the descriptor's name when the method set of \<open>t\<close> is not empty.
  \<^item> When the method set is empty, host null becomes the nil interface and host undefined
    becomes a host handle wrapping undefined, again with no cache entry under \<open>t\<close>.
  \<^item> With a cache entry for the value under \<open>t\<close> and no back-reference, the entry is
    returned.
\<close>

theorem internalize_interface_rules:
  assumes "wf_runtime rt" and "t_kind (tdesc rt t) = KInterface"
  shows "(\<not> no_backref H v
            \<longrightarrow> internalize (Suc n) rt H st v t recv seen mk
                  = (case assertType rt (the (get_prop H v (js ''__internal_object__''))) t of
                       None \<Rightarrow> GoPanic
                     | Some x \<Rightarrow> Ok (x, st, seen_or_empty seen)))
       \<and> (t_methods (tdesc rt t) \<noteq> [] \<and> no_backref H v \<and> not_cached seen t v
            \<longrightarrow> internalize (Suc n) rt H st v t recv seen mk
                  = Fatal (''cannot internalize '' @ t_string (tdesc rt t)))
       \<and> (t_methods (tdesc rt t) = [] \<and> not_cached seen t Null
            \<longrightarrow> internalize (Suc n) rt H st Null t recv seen mk = Ok (IfaceNil, st, seen_start seen t))
       \<and> (t_methods (tdesc rt t) = [] \<and> not_cached seen t Undefined
            \<longrightarrow> internalize (Suc n) rt H st Undefined t recv seen mk
                  = Ok (StructV (t_elem (tdesc rt (jsObjectPtr rt))) [(js ''object'', Undefined)],
                        st, seen_start seen t))
       \<and> (\<forall>c. no_backref H v \<and> seen_get (seen_start seen t) t v = Some c
            \<longrightarrow> internalize (Suc n) rt H st v t recv seen mk = Ok (c, st, seen_start seen t))"
proof -
  have k: "t \<noteq> jsObjectPtr rt" "t \<noteq> t_elem (tdesc rt (jsObjectPtr rt))" "timeTime rt \<noteq> Some t"
    using wf_runtime_kinds [OF assms(1), of t] assms(2) by simp_all
  have r: "internalize (Suc n) rt H st v t recv seen mk
             = (case assertType rt (the (get_prop H v (js ''__internal_object__''))) t of
                  None \<Rightarrow> GoPanic
                | Some x \<Rightarrow> Ok (x, st, seen_or_empty seen))"
    if "\<not> no_backref H v"
    using that k(1,2) by (simp add: internalize_body_def no_backref_def)
  have a: "internalize (Suc n) rt H st v t recv seen mk
             = Fatal (''cannot internalize '' @ t_string (tdesc rt t))"
    if "t_methods (tdesc rt t) \<noteq> []" "no_backref H v" "not_cached seen t v"
    unfolding internalize_reaches_switch [OF k(1,2) that(2) k(3) that(3)]
    using that assms(2) by (simp add: internalize_kind_def internalize_interface_def)
  have b: "internalize (Suc n) rt H st Null t recv seen mk = Ok (IfaceNil, st, seen_start seen t)"
    if "t_methods (tdesc rt t) = []" "not_cached seen t Null"
    unfolding internalize_reaches_switch [OF k(1,2) no_backref_falsy(1) k(3) that(2)]
    using that assms(2) by (simp add: internalize_kind_def internalize_interface_def)
  have c: "internalize (Suc n) rt H st Undefined t recv seen mk
             = Ok (StructV (t_elem (tdesc rt (jsObjectPtr rt))) [(js ''object'', Undefined)],
                   st, seen_start seen t)"
    if "t_methods (tdesc rt t) = []" "not_cached seen t Undefined"
    unfolding internalize_reaches_switch [OF k(1,2) no_backref_falsy(2) k(3) that(2)]
    using that assms(2) by (simp add: internalize_kind_def internalize_interface_def new_jsObjectPtr_def)
  have d: "internalize (Suc n) rt H st v t recv seen mk = Ok (x, st, seen_start seen t)"
    if "no_backref H v" "seen_get (seen_start seen t) t v = Some x" for x
  proof -
    have nb: "\<not> (truthy v \<and> get_prop H v (js ''__internal_object__'') \<noteq> Some Undefined)"
      using that(1) by (simp add: no_backref_def)
    show ?thesis using k that(2) by (simp add: internalize_body_def nb del: not_Some_eq)
  qed
  from r a b c d show ?thesis by blast
qed

lemma get_prop_100: "get_prop H0 (HRef 100) name = Some Undefined"
  by (simp add: get_prop_def ex_defs)

lemma get_prop_102:
  "get_prop H0 (HRef 102) (js ''__internal_object__'') = Some go_stringer"
  by (simp add: get_prop_def ex_defs)

theorem internalize_interface_rules_witness:
  "internalize (Suc 0) rt0 H0 [] (HRef 102) 7 Undefined None Undefined = Ok (go_stringer, [], [])
   \<and> internalize (Suc 0) rt0 H0 [] (HRef 102) 6 Undefined None Undefined = GoPanic
   \<and> internalize (Suc 0) rt0 H0 [] (HRef 100) 7 Undefined None Undefined
     = Fatal (''cannot internalize '' @ t_string (tdesc rt0 7))
   \<and> internalize (Suc 0) rt0 H0 [] Null 6 Undefined None Undefined = Ok (IfaceNil, [], seen_start None 6)
   \<and> internalize (Suc 0) rt0 H0 [] Undefined 6 Undefined None Undefined
     = Ok (StructV (t_elem (tdesc rt0 (jsObjectPtr rt0))) [(js ''object'', Undefined)], [], seen_start None 6)
   \<and> internalize (Suc 0) rt0 H0 [] (HRef 100) 7 Undefined (Some [(7, [(HRef 100, IfaceNil)])]) Undefined
     = Ok (IfaceNil, [], [(7, [(HRef 100, IfaceNil)])])"
proof -
  have k7: "t_kind (tdesc rt0 7) = KInterface" and k6: "t_kind (tdesc rt0 6) = KInterface"
    by (simp_all add: ex_defs)
  have m7: "t_methods (tdesc rt0 7) \<noteq> []" and m6: "t_methods (tdesc rt0 6) = []"
    by (simp_all add: ex_defs)
  have nb: "no_backref H0 (HRef 100)" by (simp add: no_backref_def get_prop_100)
  have br: "\<not> no_backref H0 (HRef 102)"
    by (simp add: no_backref_def get_prop_102 truthy_def go_stringer_def)
  have nc: "not_cached None t v" for t v by (simp add: not_cached_def)
  have a7: "assertType rt0 (the (get_prop H0 (HRef 102) (js ''__internal_object__''))) 7
      = Some go_stringer" by (simp add: get_prop_102 rt0_def)
  have a6: "assertType rt0 (the (get_prop H0 (HRef 102) (js ''__internal_object__''))) 6 = None"
    by (simp add: get_prop_102 rt0_def)
  have e: "seen_or_empty None = []" by (simp add: seen_or_empty_def)
  have s: "seen_start (Some [(7, [(HRef 100, IfaceNil)])]) 7 = [(7, [(HRef 100, IfaceNil)])]"
    "seen_get [(7, [(HRef 100, IfaceNil)])] 7 (HRef 100) = Some IfaceNil"
    by (simp_all add: seen_start_def seen_get_def)
  note i7 = internalize_interface_rules [OF wf_rt0 k7, of H0 _ 0 "[]" Undefined _ Undefined]
  note i6 = internalize_interface_rules [OF wf_rt0 k6, of H0 _ 0 "[]" Undefined _ Undefined]
  have c1: "internalize (Suc 0) rt0 H0 [] (HRef 102) 7 Undefined None Undefined = Ok (go_stringer, [], [])"
    using i7 [of "HRef 102" None, THEN conjunct1, rule_format, OF br]
    by (simp only: a7 e option.case)
  have c2: "internalize (Suc 0) rt0 H0 [] (HRef 102) 6 Undefined None Undefined = GoPanic"
    using i6 [of "HRef 102" None, THEN conjunct1, rule_format, OF br]
    by (simp only: a6 option.case)
  have c3: "internalize (Suc 0) rt0 H0 [] (HRef 100) 7 Undefined None Undefined
     = Fatal (''cannot internalize '' @ t_string (tdesc rt0 7))"
    using i7 [of "HRef 100" None] m7 nb nc by blast
  have c4: "internalize (Suc 0) rt0 H0 [] Null 6 Undefined None Undefined = Ok (IfaceNil, [], seen_start None 6)"
    using i6 [of Null None] m6 nc by blast
  have c5: "internalize (Suc 0) rt0 H0 [] Undefined 6 Undefined None Undefined
     = Ok (StructV (t_elem (tdesc rt0 (jsObjectPtr rt0))) [(js ''object'', Undefined)], [], seen_start None 6)"
    using i6 [of Undefined None] m6 nc by blast
  have c6: "internalize (Suc 0) rt0 H0 [] (HRef 100) 7 Undefined (Some [(7, [(HRef 100, IfaceNil)])]) Undefined
     = Ok (IfaceNil, [], [(7, [(HRef 100, IfaceNil)])])"
    using i7 [of "HRef 100" "Some [(7, [(HRef 100, IfaceNil)])]"] nb s by (simp only: )
  from c1 c2 c3 c4 c5 c6 show ?thesis by blast
qed

text \<open>
  C8 as stated fails for a host value that carries a back-reference: the wrapped value is
  asserted against the interface and returned.
\<close>

theorem internalize_interface_backref:
  "internalize (Suc 0) rt0 H0 [] (HRef 102) 7 Undefined None Undefined = Ok (go_stringer, [], [])"
  by (simp add: internalize_body_def ex_defs get_prop_def truthy_def seen_or_empty_def go_stringer_def)
subsection \<open>Integers\<close>

lemma parseInt_num: "parseInt H (JNum x) = parseInt_string (js (Number_toString x))"
  by (simp add: parseInt_def ToString_def)

lemma replicate_numeral: "replicate (numeral k) x = x # replicate (pred_numeral k) x"
  by (simp add: numeral_eq_Suc)

lemmas num_eval = replicate_numeral Number_toString_def parseInt_string_def js_def isWhiteSpace_def
  digitVal_def Let_def dec_nat.simps digit_char_def char_of_eq_iff jsint_def number_of_nat_def

lemma parse_300: "parseInt_string (js (Number_toString (jsint 300))) = jsint 300"
  by (simp add: num_eval)

lemma parse_big: "parseInt_string (js (Number_toString (jsint 4294967301))) = jsint 4294967301"
  by (simp add: num_eval)

lemma parse_39: "parseInt_string (js (Number_toString (Fin False 39 1))) = jsint 3"
  by (simp add: num_eval)

lemma parse_undefined: "parseInt H Undefined = NaN"
  by (simp add: parseInt_def ToString_def num_eval)

text \<open>Above \<open>2\<^sup>5\<^sup>3\<close> the digits are rounded to a double: \<open>2\<^sup>5\<^sup>3 + 1\<close> is read as \<open>2\<^sup>5\<^sup>3\<close>.\<close>

lemma round_double_example: "round_double 9007199254740993 = 9007199254740992"
  by (simp add: round_double_def bitlen.simps Let_def)

lemma parse_rounded: "parseInt_string (js ''9007199254740993'') = jsint 9007199254740992"
  by (simp add: num_eval round_double_example)

lemmas shift_defs = js_sar_def js_shl_def js_shr_def jsint_def ToInt32_def

text \<open>
  The examples of C2: 300 becomes 44 as a signed and as an unsigned 8-bit integer, and 3.9
  becomes 3 under each of the integer kinds that \<open>$internalize\<close> converts with \<open>parseInt\<close>.
\<close>

lemma internalize_int_300:
  "internalize_int H KInt8 (JNum (jsint 300)) = jsint 44"
  "internalize_int H KUint8 (JNum (jsint 300)) = jsint 44"
  unfolding internalize_int_def parseInt_num parse_300 by (simp_all add: shift_defs)

lemma internalize_int_39:
  "internalize_int H KInt (JNum (Fin False 39 1)) = jsint 3"
  "internalize_int H KInt8 (JNum (Fin False 39 1)) = jsint 3"
  "internalize_int H KInt16 (JNum (Fin False 39 1)) = jsint 3"
  "internalize_int H KInt32 (JNum (Fin False 39 1)) = jsint 3"
  "internalize_int H KUint (JNum (Fin False 39 1)) = jsint 3"
  "internalize_int H KUint8 (JNum (Fin False 39 1)) = jsint 3"
  "internalize_int H KUint16 (JNum (Fin False 39 1)) = jsint 3"
  "internalize_int H KUint32 (JNum (Fin False 39 1)) = jsint 3"
  "internalize_int H KUintptr (JNum (Fin False 39 1)) = jsint 3"
  unfolding internalize_int_def parseInt_num parse_39 by (simp_all add: shift_defs)

text \<open>
  C2, at the failing input. The host number 4294967301, which is \<open>2\<^sup>3\<^sup>2 + 5\<close>, is
  internalized into the descriptor of \<open>int\<close> as 4294967301: the case \<open>$kindInt\<close> returns
  \<open>parseInt(v)\<close> as it is. Under \<open>$kindInt32\<close> the same number becomes 5.
\<close>

theorem internalize_int_not_wrapped:
  "internalize (Suc 0) rt0 H0 [] (JNum (jsint 4294967301)) 2 Undefined None Undefined
     = Ok (JNum (jsint 4294967301), [], [(2, [])])
   \<and> internalize_int H0 KUint (JNum (jsint 4294967301)) = jsint 4294967301
   \<and> internalize_int H0 KInt32 (JNum (jsint 4294967301)) = jsint 5"
proof -
  have a: "internalize_int H0 KInt (JNum (jsint 4294967301)) = jsint 4294967301"
    by (simp add: internalize_int_def parseInt_num parse_big)
  have b: "internalize_int H0 KUint (JNum (jsint 4294967301)) = jsint 4294967301"
    by (simp add: internalize_int_def parseInt_num parse_big)
  have c: "internalize_int H0 KInt32 (JNum (jsint 4294967301)) = jsint 5"
    unfolding internalize_int_def parseInt_num parse_big by (simp add: shift_defs)
  have k: "t_kind (tdesc rt0 2) = KInt" "2 \<noteq> jsObjectPtr rt0" "2 \<noteq> t_elem (tdesc rt0 (jsObjectPtr rt0))"
    "timeTime rt0 \<noteq> Some 2"
    by (simp_all add: ex_defs)
  have nb: "no_backref H0 (JNum (jsint 4294967301))"
    by (simp add: no_backref_def get_prop_def)
  have nc: "not_cached None 2 (JNum (jsint 4294967301))" by (simp add: not_cached_def)
  have "internalize (Suc 0) rt0 H0 [] (JNum (jsint 4294967301)) 2 Undefined None Undefined
     = Ok (JNum (jsint 4294967301), [], [(2, [])])"
    unfolding internalize_reaches_switch [OF k(2,3) nb k(4) nc]
    by (simp add: internalize_kind_def k(1) a seen_start_None)
  with b c show ?thesis by simp
qed

subsection \<open>Structs without a host handle\<close>

lemma externalize_struct_case:
  assumes "wf_runtime rt" "t_kind (tdesc rt t) = KStruct"
  shows "externalize (Suc n) rt H st v t mk =
     externalize_struct (externalize n rt H st) (searchJsObject_ex n rt H v t) rt H v t mk"
proof -
  have "t \<noteq> jsObjectPtr rt" using assms by (auto simp: wf_runtime_def)
  then show ?thesis using assms(2) by (simp add: externalize_body_def)
qed

lemma internalize_struct_case:
  assumes "wf_runtime rt" "t_kind (tdesc rt t) = KStruct"
    and "t \<noteq> t_elem (tdesc rt (jsObjectPtr rt))" "timeTime rt \<noteq> Some t"
    and "no_backref H v" "not_cached seen t v"
  shows "internalize (Suc n) rt H st v t recv seen mk =
     internalize_struct (internalize n rt H) (searchJsObject_in n rt v t) rt H st v t recv
       (seen_start seen t) mk"
proof -
  have k: "t \<noteq> jsObjectPtr rt" using assms(1,2) by (auto simp: wf_runtime_def)
  show ?thesis
    unfolding internalize_reaches_switch [OF k assms(3) assms(5) assms(4) assms(6)]
    using assms(2) by (simp add: internalize_kind_def)
qed

lemma search_in_plain_field:
  assumes "t \<noteq> jsObjectPtr rt" "t \<noteq> t_elem (tdesc rt (jsObjectPtr rt))"
    and "t_kind (tdesc rt t) = KStruct" "t_fields (tdesc rt t) = f # fs"
    and "f_typ f \<noteq> jsObjectPtr rt" "f_typ f \<noteq> t_elem (tdesc rt (jsObjectPtr rt))"
    and "t_kind (tdesc rt (f_typ f)) \<noteq> KPtr" "t_kind (tdesc rt (f_typ f)) \<noteq> KStruct"
  shows "searchJsObject_in (Suc (Suc m)) rt v t = Ok None"
  using assms by (cases "t_kind (tdesc rt (f_typ f))") (simp_all add: bind_res_def)

lemma search_ex_plain_field:
  assumes "t \<noteq> jsObjectPtr rt"
    and "t_kind (tdesc rt t) = KStruct" "t_fields (tdesc rt t) = f # fs"
    and "get_prop H v (f_prop f) = Some x"
    and "f_typ f \<noteq> jsObjectPtr rt"
    and "t_kind (tdesc rt (f_typ f)) \<noteq> KPtr" "t_kind (tdesc rt (f_typ f)) \<noteq> KStruct"
        "t_kind (tdesc rt (f_typ f)) \<noteq> KInterface"
  shows "searchJsObject_ex (Suc (Suc m)) rt H v t = Ok None"
  using assms by (cases "t_kind (tdesc rt (f_typ f))") simp_all

lemma no_backref_100: "no_backref H0 (HRef 100)"
  by (simp add: no_backref_def get_prop_100)

lemma not_cached_None: "not_cached None t v"
  by (simp add: not_cached_def)

lemma not_cached_fresh: "t \<noteq> t' \<Longrightarrow> not_cached (Some (seen_start None t)) t' v"
  by (simp add: not_cached_def seen_start_def seen_get_def)

lemma plain_kind_facts:
  assumes "wf_runtime rt" "plain_kind (t_kind (tdesc rt u))"
  shows "u \<noteq> jsObjectPtr rt" "u \<noteq> t_elem (tdesc rt (jsObjectPtr rt))" "timeTime rt \<noteq> Some u"
    "t_kind (tdesc rt u) \<noteq> KPtr" "t_kind (tdesc rt u) \<noteq> KStruct" "t_kind (tdesc rt u) \<noteq> KInterface"
  using assms by (auto simp: wf_runtime_def plain_kind_def split: option.splits)

lemma internalize_plain_step:
  assumes "wf_runtime rt" "plain_kind (t_kind (tdesc rt u))" "no_backref H x" "not_cached seen u x"
  shows "internalize (Suc m) rt H st x u recv seen mk
           = Ok (internalize_plain H (t_kind (tdesc rt u)) x, st, seen_start seen u)"
  unfolding internalize_reaches_switch [OF plain_kind_facts(1,2) [OF assms(1,2)] assms(3)
      plain_kind_facts(3) [OF assms(1,2)] assms(4)]
  using assms(2)
  by (cases "t_kind (tdesc rt u)") (simp_all add: internalize_kind_def internalize_plain_def plain_kind_def)

lemma externalize_plain_step:
  assumes "wf_runtime rt" "plain_kind (t_kind (tdesc rt u))"
    and "t_kind (tdesc rt u) = KString \<longrightarrow> (\<exists>s. x = JStr s)"
  shows "externalize (Suc m) rt H st x u mk = Ok (externalize_plain (t_kind (tdesc rt u)) x)"
  using assms(2,3) plain_kind_facts(1) [OF assms(1,2)]
  by (cases "t_kind (tdesc rt u)")
     (auto simp: externalize_body_def externalize_plain_def plain_kind_def)

lemma update_fresh: "k \<notin> fst ` set al \<Longrightarrow> AList.update k x al = al @ [(k, x)]"
  by (induction al) auto

lemma update_middle:
  "k \<notin> fst ` set al \<Longrightarrow> AList.update k x (al @ (k, z) # rest) = al @ (k, x) # rest"
  by (induction al) auto

lemma map_of_fields:
  "distinct (map f_prop fs) \<Longrightarrow> f \<in> set fs
     \<Longrightarrow> map_of (map (\<lambda>f. (f_prop f, g f)) fs) (f_prop f) = Some (g f)"
  by (induction fs) (auto simp: image_iff)

lemma get_prop_defined: "v \<noteq> Undefined \<Longrightarrow> v \<noteq> Null \<Longrightarrow> \<exists>x. get_prop H v name = Some x"
  by (cases v) (auto simp: get_prop_def split: option.splits)

lemma fold_update_fields:
  assumes "distinct (map f_prop fs)" "\<forall>f \<in> set fs. f_prop f \<notin> fst ` set al"
  shows "fold (\<lambda>f al. if f_exported f then AList.update (f_prop f) (w f) al else al) fs
           (al @ map (\<lambda>f. (f_prop f, z f)) fs)
         = al @ map (\<lambda>f. (f_prop f, if f_exported f then w f else z f)) fs"
  using assms
proof (induction fs arbitrary: al)
  case Nil
  then show ?case by simp
next
  case (Cons f fs)
  let ?x = "if f_exported f then w f else z f"
  have k: "f_prop f \<notin> fst ` set al" using Cons.prems(2) by simp
  have d: "distinct (map f_prop fs)" using Cons.prems(1) by simp
  have n: "\<forall>g \<in> set fs. f_prop g \<notin> fst ` set (al @ [(f_prop f, ?x)])"
    using Cons.prems by (force simp: image_iff)
  have "(if f_exported f then AList.update (f_prop f) (w f) (al @ (f_prop f, z f) # map (\<lambda>f. (f_prop f, z f)) fs)
         else al @ (f_prop f, z f) # map (\<lambda>f. (f_prop f, z f)) fs)
        = (al @ [(f_prop f, ?x)]) @ map (\<lambda>f. (f_prop f, z f)) fs"
    using update_middle [OF k] by simp
  then show ?case using Cons.IH [OF d n] by simp
qed

lemma internalize_fields_loop:
  assumes "wf_runtime rt"
    and "\<forall>f \<in> set fs. plain_kind (t_kind (tdesc rt (f_typ f)))"
    and "v \<noteq> Undefined" "v \<noteq> Null"
    and "\<forall>f \<in> set fs. f_exported f \<longrightarrow> no_backref H (the (get_prop H v (f_name f)))"
    and "\<forall>t' v'. not_cached (Some c) t' v'"
  shows "\<exists>c'. foldM_res
       (\<lambda>f (nn, s, c).
          (if \<not> f_exported f then Ok (nn, s, c)
           else
             (case get_prop H v (f_name f) of
                None \<Rightarrow> TypeError
              | Some jsProp \<Rightarrow>
                  bind_res (internalize (Suc m) rt H s jsProp (f_typ f) recv (Some c) mk)
                    (\<lambda>(x, s', c'). Ok (set_prop nn (f_prop f) x, s', c')))))
       fs (StructV t al, st, c)
     = Ok (StructV t
            (fold (\<lambda>f al. if f_exported f
                           then AList.update (f_prop f)
                                  (internalize_plain H (t_kind (tdesc rt (f_typ f))) (the (get_prop H v (f_name f)))) al
                           else al) fs al), st, c')"
  using assms(2,5,6)
proof (induction fs arbitrary: al c)
  case Nil
  then show ?case by simp
next
  case (Cons f fs)
  have p: "\<forall>f \<in> set fs. plain_kind (t_kind (tdesc rt (f_typ f)))" using Cons.prems(1) by simp
  have b: "\<forall>f \<in> set fs. f_exported f \<longrightarrow> no_backref H (the (get_prop H v (f_name f)))"
    using Cons.prems(2) by simp
  show ?case
  proof (cases "f_exported f")
    case False
    with Cons.IH [OF p b Cons.prems(3), of al] show ?thesis by (simp add: bind_res_def)
  next
    case True
    from get_prop_defined [OF assms(3,4)] obtain x where x: "get_prop H v (f_name f) = Some x" by blast
    have nb: "no_backref H x" using Cons.prems(2) True x by simp
    have pk: "plain_kind (t_kind (tdesc rt (f_typ f)))" using Cons.prems(1) by simp
    have nc: "not_cached (Some c) (f_typ f) x" using Cons.prems(3) by blast
    note step = internalize_plain_step [OF assms(1) pk nb nc, of m st recv mk]
    have cl: "\<forall>t' v'. not_cached (Some (seen_start (Some c) (f_typ f))) t' v'"
      by (rule not_cached_start [OF Cons.prems(3)])
    from Cons.IH [OF p b cl,
        of "AList.update (f_prop f) (internalize_plain H (t_kind (tdesc rt (f_typ f))) x) al"]
    show ?thesis
      using True x step by (simp add: bind_res_def set_prop_def del: internalize.simps)
  qed
qed

lemma externalize_fields_loop:
  assumes "wf_runtime rt"
    and "\<forall>f \<in> set fs. plain_kind (t_kind (tdesc rt (f_typ f)))"
    and "\<forall>f \<in> set fs. get_prop H v (f_prop f) = Some (g f)"
    and "\<forall>f \<in> set fs. t_kind (tdesc rt (f_typ f)) = KString \<longrightarrow> (\<exists>s. g f = JStr s)"
    and "distinct (map f_name (filter f_exported fs))"
    and "\<forall>f \<in> set fs. f_exported f \<longrightarrow> f_name f \<notin> fst ` set acc"
  shows "foldM_res
       (\<lambda>f ob.
          (if \<not> f_exported f then Ok ob
           else
             (case get_prop H v (f_prop f) of
                None \<Rightarrow> TypeError
              | Some x \<Rightarrow>
                  bind_res (externalize (Suc m) rt H st x (f_typ f) mk) (\<lambda>y. Ok (set_prop ob (f_name f) y)))))
       fs (ObjLit acc)
     = Ok (ObjLit (acc @ map (\<lambda>f. (f_name f, externalize_plain (t_kind (tdesc rt (f_typ f))) (g f)))
                          (filter f_exported fs)))"
  using assms(2-6)
proof (induction fs arbitrary: acc)
  case Nil
  then show ?case by simp
next
  case (Cons f fs)
  have p: "\<forall>f \<in> set fs. plain_kind (t_kind (tdesc rt (f_typ f)))" using Cons.prems(1) by simp
  have gp: "\<forall>f \<in> set fs. get_prop H v (f_prop f) = Some (g f)" using Cons.prems(2) by simp
  have ws: "\<forall>f \<in> set fs. t_kind (tdesc rt (f_typ f)) = KString \<longrightarrow> (\<exists>s. g f = JStr s)"
    using Cons.prems(3) by simp
  show ?case
  proof (cases "f_exported f")
    case False
    have d: "distinct (map f_name (filter f_exported fs))" using Cons.prems(4) False by simp
    have n: "\<forall>f \<in> set fs. f_exported f \<longrightarrow> f_name f \<notin> fst ` set acc" using Cons.prems(5) by simp
    from Cons.IH [OF p gp ws d n] False show ?thesis by (simp add: bind_res_def)
  next
    case True
    let ?y = "externalize_plain (t_kind (tdesc rt (f_typ f))) (g f)"
    have d: "distinct (map f_name (filter f_exported fs))" using Cons.prems(4) True by simp
    have fr: "f_name f \<notin> fst ` set acc" using Cons.prems(5) True by simp
    have n: "\<forall>h \<in> set fs. f_exported h \<longrightarrow> f_name h \<notin> fst ` set (acc @ [(f_name f, ?y)])"
      using Cons.prems(4,5) True by (force simp: image_iff)
    have pk: "plain_kind (t_kind (tdesc rt (f_typ f)))" using Cons.prems(1) by simp
    have w: "t_kind (tdesc rt (f_typ f)) = KString \<longrightarrow> (\<exists>s. g f = JStr s)" using Cons.prems(3) by simp
    note step = externalize_plain_step [OF assms(1) pk w, of m H st mk]
    have x: "get_prop H v (f_prop f) = Some (g f)" using Cons.prems(2) by simp
    from Cons.IH [OF p gp ws d n] show ?thesis
      using True x step update_fresh [OF fr, of ?y]
      by (simp add: bind_res_def set_prop_def del: externalize.simps)
  qed
qed


lemma search_in_plain_struct:
  assumes "wf_runtime rt" "t_kind (tdesc rt t) = KStruct"
    and "t \<noteq> t_elem (tdesc rt (jsObjectPtr rt))"
    and "\<forall>f \<in> set (t_fields (tdesc rt t)). plain_kind (t_kind (tdesc rt (f_typ f)))"
  shows "searchJsObject_in (Suc (Suc m)) rt v t = Ok None"
proof (cases "t_fields (tdesc rt t)")
  case Nil
  have "t \<noteq> jsObjectPtr rt" using assms(1,2) by (auto simp: wf_runtime_def)
  with Nil assms(2,3) show ?thesis by simp
next
  case (Cons f fs)
  have tk: "t \<noteq> jsObjectPtr rt" using assms(1,2) by (auto simp: wf_runtime_def)
  have pk: "plain_kind (t_kind (tdesc rt (f_typ f)))" using assms(4) Cons by simp
  show ?thesis
    by (rule search_in_plain_field [OF tk assms(3) assms(2) Cons
          plain_kind_facts(1,2,4,5) [OF assms(1) pk]])
qed

lemma search_ex_plain_struct:
  assumes "wf_runtime rt" "t_kind (tdesc rt t) = KStruct"
    and "\<forall>f \<in> set (t_fields (tdesc rt t)). plain_kind (t_kind (tdesc rt (f_typ f)))"
    and "\<forall>f \<in> set (t_fields (tdesc rt t)). get_prop H v (f_prop f) = Some (g f)"
  shows "searchJsObject_ex (Suc (Suc m)) rt H v t = Ok None"
proof (cases "t_fields (tdesc rt t)")
  case Nil
  have "t \<noteq> jsObjectPtr rt" using assms(1,2) by (auto simp: wf_runtime_def)
  with Nil assms(2) show ?thesis by simp
next
  case (Cons f fs)
  have tk: "t \<noteq> jsObjectPtr rt" using assms(1,2) by (auto simp: wf_runtime_def)
  have pk: "plain_kind (t_kind (tdesc rt (f_typ f)))" using assms(3) Cons by simp
  have gp: "get_prop H v (f_prop f) = Some (g f)" using assms(4) Cons by simp
  show ?thesis
    by (rule search_ex_plain_field [OF tk assms(2) Cons gp
          plain_kind_facts(1,4,5,6) [OF assms(1) pk]])
qed

lemma internalize_plain_undefined:
  "internalize_plain H KBool Undefined = JBool False"
  "internalize_plain H KInt8 Undefined = JNum (jsint 0)"
  "internalize_plain H KInt16 Undefined = JNum (jsint 0)"
  "internalize_plain H KInt32 Undefined = JNum (jsint 0)"
  "internalize_plain H KUint8 Undefined = JNum (jsint 0)"
  "internalize_plain H KUint16 Undefined = JNum (jsint 0)"
  "internalize_plain H KUint32 Undefined = JNum (jsint 0)"
  "internalize_plain H KUintptr Undefined = JNum (jsint 0)"
  "internalize_plain H KString Undefined = JStr (js ''undefined'')"
  unfolding internalize_plain_def internalize_int_def parse_undefined
  by (simp_all add: truthy_def shift_defs ToString_def internalize_string_def isASCII_def js_def)

text \<open>
  C6, as amended. Take a struct descriptor all of whose fields are of plain kinds (bool,
  the integer kinds up to 32 bits, the float kinds, string), with distinct storage keys and
  distinct external names, so that no host handle is promoted.

  \<^item> Externalizing a struct value of that type without wrapper factory yields a host
    object with exactly one property per exported field, in the order of the fields, named
    by the external name of the field and holding the externalized field (the value itself,
    or the UTF-16 form of a string); unexported fields are omitted.
  \<^item> Internalizing a host value other than null and undefined, with no back-reference on
    it or on the properties read and with an empty cache, yields a struct in which every
    exported field holds the conversion of the property \<open>v[f.name]\<close> into the field's
    descriptor and every unexported field holds its zero value.
  \<^item> For a property the host object lacks, the value converted is undefined: this gives
    the zero value for bool and for the integer kinds of 8, 16 and 32 bits, but the string
    "undefined" for a string field, whose zero value is the empty string.
\<close>

theorem struct_field_visibility:
  assumes "wf_runtime rt" and "t_kind (tdesc rt t) = KStruct" and "t_fields (tdesc rt t) = fs"
    and "\<forall>f \<in> set fs. plain_kind (t_kind (tdesc rt (f_typ f)))"
    and "distinct (map f_prop fs)" and "distinct (map f_name (filter f_exported fs))"
  shows "(\<not> is_time_value rt (StructV t (map (\<lambda>f. (f_prop f, g f)) fs))
            \<and> (\<forall>f \<in> set fs. t_kind (tdesc rt (f_typ f)) = KString \<longrightarrow> (\<exists>s. g f = JStr s))
          \<longrightarrow> externalize (Suc (Suc (Suc m))) rt H st (StructV t (map (\<lambda>f. (f_prop f, g f)) fs)) t Undefined
                = Ok (ObjLit (map (\<lambda>f. (f_name f, externalize_plain (t_kind (tdesc rt (f_typ f))) (g f)))
                                 (filter f_exported fs))))
       \<and> (t \<noteq> t_elem (tdesc rt (jsObjectPtr rt)) \<and> timeTime rt \<noteq> Some t
            \<and> v \<noteq> Undefined \<and> v \<noteq> Null \<and> no_backref H v \<and> (\<forall>t' v'. not_cached seen t' v')
            \<and> (\<forall>f \<in> set fs. f_exported f \<longrightarrow> no_backref H (the (get_prop H v (f_name f))))
          \<longrightarrow> (\<exists>c'. internalize (Suc (Suc (Suc m))) rt H st v t recv seen mk
                = Ok (StructV t
                        (map (\<lambda>f. (f_prop f,
                                   if f_exported f
                                   then internalize_plain H (t_kind (tdesc rt (f_typ f)))
                                          (the (get_prop H v (f_name f)))
                                   else zero_value rt (f_typ f))) fs),
                      st, c')))
       \<and> (\<forall>u. t_kind (tdesc rt u) \<in> {KBool, KInt8, KInt16, KInt32, KUint8, KUint16, KUint32, KUintptr}
              \<longrightarrow> internalize_plain H (t_kind (tdesc rt u)) Undefined = zero_value rt u)
       \<and> (\<forall>u. t_kind (tdesc rt u) = KString
              \<longrightarrow> internalize_plain H (t_kind (tdesc rt u)) Undefined = JStr (js ''undefined'')
                  \<and> zero_value rt u = JStr [])"
proof -
  have pl: "\<forall>f \<in> set (t_fields (tdesc rt t)). plain_kind (t_kind (tdesc rt (f_typ f)))"
    using assms(3,4) by simp
  have ext: "externalize (Suc (Suc (Suc m))) rt H st (StructV t (map (\<lambda>f. (f_prop f, g f)) fs)) t Undefined
                = Ok (ObjLit (map (\<lambda>f. (f_name f, externalize_plain (t_kind (tdesc rt (f_typ f))) (g f)))
                                 (filter f_exported fs)))"
    if nt: "\<not> is_time_value rt (StructV t (map (\<lambda>f. (f_prop f, g f)) fs))"
      and ws: "\<forall>f \<in> set fs. t_kind (tdesc rt (f_typ f)) = KString \<longrightarrow> (\<exists>s. g f = JStr s)"
  proof -
    let ?v = "StructV t (map (\<lambda>f. (f_prop f, g f)) fs)"
    have gp: "\<forall>f \<in> set fs. get_prop H ?v (f_prop f) = Some (g f)"
      using map_of_fields [OF assms(5), of _ g] by (simp add: get_prop_def)
    have gp': "\<forall>f \<in> set (t_fields (tdesc rt t)). get_prop H ?v (f_prop f) = Some (g f)"
      using gp assms(3) by simp
    have s: "searchJsObject_ex (Suc (Suc m)) rt H ?v t = Ok None"
      by (rule search_ex_plain_struct [OF assms(1,2) pl gp'])
    have tv: "\<not> (timeTime rt \<noteq> None \<and> go_constructor rt ?v = Some (t_ptr (tdesc rt (the (timeTime rt)))))"
      using nt by (auto simp: is_time_value_def split: option.splits)
    have e: "\<forall>f \<in> set fs. f_exported f \<longrightarrow> f_name f \<notin> fst ` set ([] :: (jsstring \<times> jsval) list)"
      by simp
    note loop = externalize_fields_loop [OF assms(1,4) gp ws assms(6) e, of "Suc m" st Undefined]
    show ?thesis
      unfolding externalize_struct_case [OF assms(1,2)] s
      using tv loop
      by (simp add: externalize_struct_def externalize_fields_def bind_res_def assms(3)
          del: externalize.simps)
  qed
  have int: "\<exists>c'. internalize (Suc (Suc (Suc m))) rt H st v t recv seen mk
                = Ok (StructV t
                        (map (\<lambda>f. (f_prop f,
                                   if f_exported f
                                   then internalize_plain H (t_kind (tdesc rt (f_typ f)))
                                          (the (get_prop H v (f_name f)))
                                   else zero_value rt (f_typ f))) fs),
                      st, c')"
    if te: "t \<noteq> t_elem (tdesc rt (jsObjectPtr rt))" and tt: "timeTime rt \<noteq> Some t"
      and vu: "v \<noteq> Undefined" and vn: "v \<noteq> Null"
      and nb: "no_backref H v" and cl: "\<forall>t' v'. not_cached seen t' v'"
      and fb: "\<forall>f \<in> set fs. f_exported f \<longrightarrow> no_backref H (the (get_prop H v (f_name f)))"
  proof -
    have s: "searchJsObject_in (Suc (Suc m)) rt v t = Ok None"
      by (rule search_in_plain_struct [OF assms(1,2) te pl])
    have nc: "not_cached seen t v" using cl by blast
    have cl': "\<forall>t' v'. not_cached (Some (seen_start seen t)) t' v'"
      by (rule not_cached_start [OF cl])
    from internalize_fields_loop [OF assms(1,4) vu vn fb cl',
        of "Suc m" recv mk t "map (\<lambda>f. (f_prop f, zero_value rt (f_typ f))) fs" st]
    obtain c' where loop: "foldM_res
       (\<lambda>f (nn, s, c).
          (if \<not> f_exported f then Ok (nn, s, c)
           else
             (case get_prop H v (f_name f) of
                None \<Rightarrow> TypeError
              | Some jsProp \<Rightarrow>
                  bind_res (internalize (Suc (Suc m)) rt H s jsProp (f_typ f) recv (Some c) mk)
                    (\<lambda>(x, s', c'). Ok (set_prop nn (f_prop f) x, s', c')))))
       fs (StructV t (map (\<lambda>f. (f_prop f, zero_value rt (f_typ f))) fs), st, seen_start seen t)
     = Ok (StructV t
            (fold (\<lambda>f al. if f_exported f
                           then AList.update (f_prop f)
                                  (internalize_plain H (t_kind (tdesc rt (f_typ f))) (the (get_prop H v (f_name f)))) al
                           else al) fs (map (\<lambda>f. (f_prop f, zero_value rt (f_typ f))) fs)), st, c')"
      by blast
    have e: "\<forall>f \<in> set fs. f_prop f \<notin> fst ` set ([] :: (jsstring \<times> jsval) list)" by simp
    note fu = fold_update_fields [OF assms(5) e,
        of "\<lambda>f. internalize_plain H (t_kind (tdesc rt (f_typ f))) (the (get_prop H v (f_name f)))"
           "\<lambda>f. zero_value rt (f_typ f)", simplified]
    have "internalize (Suc (Suc (Suc m))) rt H st v t recv seen mk
        = Ok (StructV t
                (map (\<lambda>f. (f_prop f,
                           if f_exported f
                           then internalize_plain H (t_kind (tdesc rt (f_typ f)))
                                  (the (get_prop H v (f_name f)))
                           else zero_value rt (f_typ f))) fs),
              st, c')"
      unfolding internalize_struct_case [OF assms(1,2) te tt nb nc] s
      using loop
      by (simp add: internalize_struct_def internalize_fields_def bind_res_def new_ptr_def assms(3) fu
          del: internalize.simps)
    then show ?thesis by blast
  qed
  have z: "internalize_plain H (t_kind (tdesc rt u)) Undefined = zero_value rt u"
    if "t_kind (tdesc rt u) \<in> {KBool, KInt8, KInt16, KInt32, KUint8, KUint16, KUint32, KUintptr}" for u
    using that by (auto simp: internalize_plain_undefined zero_value_def)
  have u: "internalize_plain H (t_kind (tdesc rt u)) Undefined = JStr (js ''undefined'')
           \<and> zero_value rt u = JStr []"
    if "t_kind (tdesc rt u) = KString" for u
    using that by (simp add: internalize_plain_undefined zero_value_def)
  from ext int z u show ?thesis by blast
qed


lemma example_R:
  "t_kind (tdesc rt0 29) = KStruct"
  "t_fields (tdesc rt0 29) = [fld ''A'' True 5, fld ''b'' False 2]"
  "\<forall>f \<in> set [fld ''A'' True 5, fld ''b'' False 2]. plain_kind (t_kind (tdesc rt0 (f_typ f)))"
  "distinct (map f_prop [fld ''A'' True 5, fld ''b'' False 2])"
  "distinct (map f_name (filter f_exported [fld ''A'' True 5, fld ''b'' False 2]))"
  "29 \<noteq> t_elem (tdesc rt0 (jsObjectPtr rt0))" "timeTime rt0 \<noteq> Some 29"
  "t_kind (tdesc rt0 5) = KString" "t_kind (tdesc rt0 3) = KInt8" "t_kind (tdesc rt0 2) = KInt"
  by (simp_all add: ex_defs js_def plain_kind_def)

lemma hi_ascii: "externalize_string (js ''hi'') = js ''hi''"
  by (simp add: externalize_string_def isASCII_def js_def)

theorem struct_field_visibility_witness:
  "externalize (Suc (Suc (Suc 0))) rt0 H0 []
      (StructV 29 [(js ''A'', JStr (js ''hi'')), (js ''b'', JNum (jsint 7))]) 29 Undefined
     = Ok (ObjLit [(js ''A'', JStr (js ''hi''))])
   \<and> (\<exists>c'. internalize (Suc (Suc (Suc 0))) rt0 H0 [] (HRef 100) 29 Undefined None Undefined
     = Ok (StructV 29 [(js ''A'', JStr (js ''undefined'')), (js ''b'', JNum (jsint 0))], [], c'))
   \<and> internalize_plain H0 KInt8 Undefined = zero_value rt0 3
   \<and> internalize_plain H0 KString Undefined = JStr (js ''undefined'') \<and> zero_value rt0 5 = JStr []"
proof -
  let ?g = "\<lambda>f. if f_exported f then JStr (js ''hi'') else JNum (jsint 7)"
  note inst = struct_field_visibility [OF wf_rt0 example_R(1,2,3,4,5),
      of ?g 0 H0 "[]" "HRef 100" None Undefined Undefined]
  have nt: "\<not> is_time_value rt0 (StructV 29 (map (\<lambda>f. (f_prop f, ?g f)) [fld ''A'' True 5, fld ''b'' False 2]))"
    by (simp add: is_time_value_def rt0_def)
  have ws: "\<forall>f \<in> set [fld ''A'' True 5, fld ''b'' False 2].
      t_kind (tdesc rt0 (f_typ f)) = KString \<longrightarrow> (\<exists>s. ?g f = JStr s)"
    by (simp add: ex_defs)
  have fb: "\<forall>f \<in> set [fld ''A'' True 5, fld ''b'' False 2].
      f_exported f \<longrightarrow> no_backref H0 (the (get_prop H0 (HRef 100) (f_name f)))"
    by (simp add: get_prop_100 no_backref_falsy)
  have cl: "\<forall>t' v'. not_cached None t' v'" by (simp add: not_cached_def)
  have v: "HRef 100 \<noteq> Undefined" "HRef 100 \<noteq> Null" by simp_all
  have a: "externalize (Suc (Suc (Suc 0))) rt0 H0 []
      (StructV 29 (map (\<lambda>f. (f_prop f, ?g f)) [fld ''A'' True 5, fld ''b'' False 2])) 29 Undefined
     = Ok (ObjLit (map (\<lambda>f. (f_name f, externalize_plain (t_kind (tdesc rt0 (f_typ f))) (?g f)))
                      (filter f_exported [fld ''A'' True 5, fld ''b'' False 2])))"
    using inst nt ws by blast
  have b: "\<exists>c'. internalize (Suc (Suc (Suc 0))) rt0 H0 [] (HRef 100) 29 Undefined None Undefined
     = Ok (StructV 29
            (map (\<lambda>f. (f_prop f,
                       if f_exported f
                       then internalize_plain H0 (t_kind (tdesc rt0 (f_typ f)))
                              (the (get_prop H0 (HRef 100) (f_name f)))
                       else zero_value rt0 (f_typ f))) [fld ''A'' True 5, fld ''b'' False 2]),
           [], c')"
    using inst example_R(6,7) v no_backref_100 cl fb by blast
  have c: "internalize_plain H0 (t_kind (tdesc rt0 3)) Undefined = zero_value rt0 3"
    using inst example_R(9) by blast
  have d: "internalize_plain H0 (t_kind (tdesc rt0 5)) Undefined = JStr (js ''undefined'')
           \<and> zero_value rt0 5 = JStr []"
    using inst example_R(8) by blast
  have fl: "f_prop (fld ''A'' True 5) = js ''A''" "f_name (fld ''A'' True 5) = js ''A''"
    "f_prop (fld ''b'' False 2) = js ''b''" "f_typ (fld ''A'' True 5) = 5" "f_typ (fld ''b'' False 2) = 2"
    "f_exported (fld ''A'' True 5)" "\<not> f_exported (fld ''b'' False 2)"
    by (simp_all add: fld_def)
  have zv: "zero_value rt0 2 = JNum (jsint 0)" by (simp add: zero_value_def example_R(10))
  have iu: "internalize_plain H0 KString Undefined = JStr (js ''undefined'')"
    using d by (simp only: example_R(8))
  have a': "externalize (Suc (Suc (Suc 0))) rt0 H0 []
      (StructV 29 [(js ''A'', JStr (js ''hi'')), (js ''b'', JNum (jsint 7))]) 29 Undefined
     = Ok (ObjLit [(js ''A'', JStr (js ''hi''))])"
    using a by (simp add: fl example_R(8) externalize_plain_def hi_ascii del: externalize.simps)
  have b': "\<exists>c'. internalize (Suc (Suc (Suc 0))) rt0 H0 [] (HRef 100) 29 Undefined None Undefined
     = Ok (StructV 29 [(js ''A'', JStr (js ''undefined'')), (js ''b'', JNum (jsint 0))], [], c')"
    using b by (simp add: fl example_R(8) get_prop_100 iu zv del: internalize.simps)
  from a' b' c d show ?thesis by (simp only: example_R(8,9))
qed

text \<open>
  C6 as stated fails: the host object \<open>{}\<close> has no property \<open>A\<close>, and internalizing it
  into \<open>struct {A string; b int}\<close> leaves the string "undefined" in the field \<open>A\<close>, not
  the zero value, which is the empty string.
\<close>

theorem struct_missing_property_not_zero:
  "internalize (Suc (Suc (Suc 0))) rt0 H0 [] (HRef 100) 29 Undefined None Undefined
     = Ok (StructV 29 [(js ''A'', JStr (js ''undefined'')), (js ''b'', JNum (jsint 0))], [],
           [(29, []), (5, [])])
   \<and> zero_value rt0 5 = JStr [] \<and> js ''undefined'' \<noteq> []"
proof -
  have pl: "\<forall>f \<in> set (t_fields (tdesc rt0 29)). plain_kind (t_kind (tdesc rt0 (f_typ f)))"
    using example_R(3) by (simp only: example_R(2))
  have s: "searchJsObject_in (Suc (Suc 0)) rt0 (HRef 100) 29 = Ok None"
    by (rule search_in_plain_struct [OF wf_rt0 example_R(1,6) pl])
  have nc5: "not_cached (Some (seen_start None 29)) 5 Undefined"
    by (rule not_cached_fresh) simp
  have pk: "plain_kind (t_kind (tdesc rt0 5))" by (simp add: example_R(8) plain_kind_def)
  have ss: "seen_start (Some (seen_start None 29)) 5 = [(29, []), (5, [])]"
    by (simp add: seen_start_def)
  have zv: "zero_value rt0 2 = JNum (jsint 0)" by (simp add: zero_value_def example_R(10))
  have a: "internalize (Suc (Suc (Suc 0))) rt0 H0 [] (HRef 100) 29 Undefined None Undefined
     = Ok (StructV 29 [(js ''A'', JStr (js ''undefined'')), (js ''b'', JNum (jsint 0))], [],
           [(29, []), (5, [])])"
    unfolding internalize_struct_case [OF wf_rt0 example_R(1,6,7) no_backref_100 not_cached_None] s
    by (simp add: internalize_struct_def internalize_fields_def bind_res_def set_prop_def new_ptr_def
        example_R(2,8) get_prop_100 fld_def zv
        internalize_plain_step [OF wf_rt0 pk no_backref_falsy(2) nc5] internalize_plain_undefined ss
        del: internalize.simps)
  have b: "zero_value rt0 5 = JStr []" by (simp add: zero_value_def example_R(8))
  have c: "js ''undefined'' \<noteq> []" by (simp add: js_def)
  from a b c show ?thesis by blast
qed
subsection \<open>Structs that hold a host handle\<close>

lemma search_in_chain:
  "type_chain rt ts \<Longrightarrow> searchJsObject_in (length ts + n) rt v (hd ts) = Ok (Some (adopt rt v ts))"
proof (induction rt ts rule: type_chain.induct)
  case (1 rt)
  then show ?case by simp
next
  case (2 rt t)
  then show ?case by simp
next
  case (3 rt t u ts)
  from "3.prems" have c: "type_chain rt (u # ts)" by simp
  from "3.IH" [OF c]
  have ih: "searchJsObject_in (Suc (length ts + n)) rt v u = Ok (Some (adopt rt v (u # ts)))" by simp
  from "3.prems" have k: "t \<noteq> jsObjectPtr rt" "t \<noteq> t_elem (tdesc rt (jsObjectPtr rt))" by simp_all
  show ?case
  proof (cases "t_kind (tdesc rt t)")
    case KPtr
    with "3.prems" have "t_elem (tdesc rt t) = u" by simp
    with KPtr k ih show ?thesis by simp
  next
    case KStruct
    with "3.prems" obtain f fs where f: "t_fields (tdesc rt t) = f # fs" "f_typ f = u"
      by (cases "t_fields (tdesc rt t)") auto
    with KStruct k ih show ?thesis by (simp add: bind_res_def)
  qed (use "3.prems" in simp_all)
qed

lemma search_ex_chain:
  "value_chain rt H v ts = Some h \<Longrightarrow> searchJsObject_ex (length ts + n) rt H v (hd ts) = Ok (Some h)"
proof (induction rt H v ts rule: value_chain.induct)
  case (1 rt H v)
  then show ?case by simp
next
  case (2 rt H v t)
  then show ?case by (simp split: if_splits)
next
  case (3 rt H v t u ts)
  from "3.prems" have k: "t \<noteq> jsObjectPtr rt" by (simp split: if_splits)
  show ?case
  proof (cases "t_kind (tdesc rt t)")
    case KPtr
    with "3.prems" k obtain x where x: "v \<noteq> NilOf t" "t_elem (tdesc rt t) = u" "dollar_get v = Some x"
      "value_chain rt H x (u # ts) = Some h"
      by (auto split: if_splits option.splits)
    from "3.IH"(1) [OF k KPtr _ x(3) x(4)] x(1,2)
    have "searchJsObject_ex (Suc (length ts + n)) rt H x u = Ok (Some h)" by simp
    with KPtr k x show ?thesis by simp
  next
    case KStruct
    with "3.prems" k obtain f fs x where f: "t_fields (tdesc rt t) = f # fs" "f_typ f = u"
      "get_prop H v (f_prop f) = Some x" "value_chain rt H x (u # ts) = Some h"
      by (auto split: if_splits option.splits list.splits)
    from "3.IH"(2) [OF k KStruct f(1) _ f(3) f(4)] f(2)
    have "searchJsObject_ex (Suc (length ts + n)) rt H x u = Ok (Some h)" by simp
    with KStruct k f show ?thesis by simp
  qed (use "3.prems" k in \<open>simp_all split: if_splits\<close>)
qed


lemma value_chain_defined:
  assumes "t \<noteq> jsObjectPtr rt" "t_kind (tdesc rt t) = KStruct" "value_chain rt H v (t # ts) = Some h"
  shows "v \<noteq> Undefined \<and> v \<noteq> Null"
proof (cases ts)
  case Nil
  with assms show ?thesis by simp
next
  case (Cons u us)
  with assms show ?thesis
    by (auto simp: get_prop_def split: list.splits if_splits option.splits)
qed

text \<open>
  C5, as amended. In a well-formed runtime, take a struct descriptor \<open>t\<close>.

  \<^item> When the chain of values that starts at the struct value \<open>v\<close> and follows the first
    field of each struct and the target of each pointer that is not nil, along the
    descriptors \<open>t # ts\<close>, ends at a field of the host handle type, \<open>$externalize\<close> returns
    exactly the value \<open>h\<close> of that field, with or without wrapper factory, unless \<open>v\<close> is a
    value of the time type.
  \<^item> When the chain of descriptors \<open>t # ts\<close>, which follows the first field of each
    struct and the element of each pointer and does not pass through the element type of
    the handle, ends at the host handle type, internalizing a host value without
    back-reference (and without cache entry under \<open>t\<close>) returns the newly built structs
    of the chain with the host value in the innermost handle field.
  \<^item> A host value that carries a back-reference is not adopted: the wrapped value is
    asserted against \<open>t\<close>, and returned if the assertion succeeds.
  \<^item> A struct with no fields gets no promotion: it externalizes to an empty host object
    and a host value internalizes to a fresh struct.
\<close>

theorem struct_handle_promotion:
  assumes "wf_runtime rt" and "t_kind (tdesc rt t) = KStruct"
  shows "(value_chain rt H v (t # ts) = Some h \<and> \<not> is_time_value rt v
            \<longrightarrow> externalize (Suc (Suc (length ts + n))) rt H st v t mk = Ok h)
       \<and> (type_chain rt (t # ts) \<and> timeTime rt \<noteq> Some t \<and> no_backref H x \<and> not_cached seen t x
            \<longrightarrow> internalize (Suc (Suc (length ts + n))) rt H st x t recv seen mk
                  = Ok (adopt rt x (t # ts), st, seen_start seen t))
       \<and> (t \<noteq> t_elem (tdesc rt (jsObjectPtr rt)) \<and> \<not> no_backref H x
            \<longrightarrow> internalize (Suc n) rt H st x t recv seen mk
                  = (case assertType rt (the (get_prop H x (js ''__internal_object__''))) t of
                       None \<Rightarrow> GoPanic
                     | Some y \<Rightarrow> Ok (y, st, seen_or_empty seen)))
       \<and> (t_fields (tdesc rt t) = [] \<and> \<not> is_time_value rt v \<and> v \<noteq> Undefined \<and> v \<noteq> Null
            \<longrightarrow> externalize (Suc (Suc n)) rt H st v t Undefined = Ok (ObjLit []))
       \<and> (t_fields (tdesc rt t) = [] \<and> t \<noteq> t_elem (tdesc rt (jsObjectPtr rt))
            \<and> timeTime rt \<noteq> Some t \<and> no_backref H x \<and> not_cached seen t x
            \<longrightarrow> internalize (Suc (Suc n)) rt H st x t recv seen mk
                  = Ok (StructV t [], st, seen_start seen t))"
proof -
  have tk: "t \<noteq> jsObjectPtr rt" using assms by (auto simp: wf_runtime_def)
  have tv: "\<not> (timeTime rt \<noteq> None \<and> go_constructor rt v = Some (t_ptr (tdesc rt (the (timeTime rt)))))"
    if "\<not> is_time_value rt v" for v
    using that by (auto simp: is_time_value_def split: option.splits)
  have a: "externalize (Suc (Suc (length ts + n))) rt H st v t mk = Ok h"
    if vc: "value_chain rt H v (t # ts) = Some h" and nt: "\<not> is_time_value rt v"
  proof -
    from search_ex_chain [OF vc, of n]
    have s: "searchJsObject_ex (Suc (length ts + n)) rt H v t = Ok (Some h)" by simp
    from value_chain_defined [OF tk assms(2) vc] have d: "v \<noteq> Undefined" "v \<noteq> Null" by simp_all
    show ?thesis
      unfolding externalize_struct_case [OF assms] s
      using tv [OF nt] d by (auto simp: externalize_struct_def bind_res_def simp del: externalize.simps)
  qed
  have b: "internalize (Suc (Suc (length ts + n))) rt H st x t recv seen mk
                  = Ok (adopt rt x (t # ts), st, seen_start seen t)"
    if tc: "type_chain rt (t # ts)" and tt: "timeTime rt \<noteq> Some t"
      and nb: "no_backref H x" and nc: "not_cached seen t x"
  proof -
    from search_in_chain [OF tc, of n x]
    have s: "searchJsObject_in (Suc (length ts + n)) rt x t = Ok (Some (adopt rt x (t # ts)))" by simp
    have te: "t \<noteq> t_elem (tdesc rt (jsObjectPtr rt))"
      using tc tk by (cases ts) simp_all
    show ?thesis
      unfolding internalize_struct_case [OF assms te tt nb nc] s
      by (simp add: internalize_struct_def bind_res_def del: internalize.simps)
  qed
  have c: "internalize (Suc n) rt H st x t recv seen mk
                  = (case assertType rt (the (get_prop H x (js ''__internal_object__''))) t of
                       None \<Rightarrow> GoPanic
                     | Some y \<Rightarrow> Ok (y, st, seen_or_empty seen))"
    if "t \<noteq> t_elem (tdesc rt (jsObjectPtr rt))" "\<not> no_backref H x"
    using that tk by (simp add: internalize_body_def no_backref_def)
  have d: "externalize (Suc (Suc n)) rt H st v t Undefined = Ok (ObjLit [])"
    if e: "t_fields (tdesc rt t) = []" and nt: "\<not> is_time_value rt v"
      and vd: "v \<noteq> Undefined" "v \<noteq> Null"
  proof -
    have s: "searchJsObject_ex (Suc n) rt H v t = Ok None" using tk assms(2) e by simp
    show ?thesis
      unfolding externalize_struct_case [OF assms] s
      using tv [OF nt] vd e
      by (auto simp: externalize_struct_def externalize_fields_def bind_res_def simp del: externalize.simps)
  qed
  have e: "internalize (Suc (Suc n)) rt H st x t recv seen mk = Ok (StructV t [], st, seen_start seen t)"
    if e: "t_fields (tdesc rt t) = []" and te: "t \<noteq> t_elem (tdesc rt (jsObjectPtr rt))"
      and tt: "timeTime rt \<noteq> Some t" and nb: "no_backref H x" and nc: "not_cached seen t x"
  proof -
    have s: "searchJsObject_in (Suc n) rt x t = Ok None" using tk te assms(2) e by simp
    show ?thesis
      unfolding internalize_struct_case [OF assms te tt nb nc] s
      using e
      by (simp add: internalize_struct_def internalize_fields_def bind_res_def new_ptr_def
          del: internalize.simps)
  qed
  from a b c d e show ?thesis by blast
qed

lemma example_Outer:
  "t_kind (tdesc rt0 14) = KStruct" "t_kind (tdesc rt0 12) = KStruct" "t_kind (tdesc rt0 18) = KStruct"
  "type_chain rt0 [14, 13, 12, 0]" "type_chain rt0 [12, 0]"
  "timeTime rt0 \<noteq> Some 14" "timeTime rt0 \<noteq> Some 18"
  "12 \<noteq> t_elem (tdesc rt0 (jsObjectPtr rt0))" "18 \<noteq> t_elem (tdesc rt0 (jsObjectPtr rt0))"
  "t_fields (tdesc rt0 18) = []"
  by (simp_all add: ex_defs)

lemma example_Outer_value:
  "value_chain rt0 H0
     (StructV 14 [(js ''Inner'', StructV 12 [(js ''Object'', HRef 100)]), (js ''n'', JNum (jsint 0))])
     [14, 13, 12, 0] = Some (HRef 100)"
  by (simp add: ex_defs get_prop_def dollar_get_def js_def)

lemma example_Outer_adopt:
  "adopt rt0 (HRef 100) [14, 13, 12, 0]
     = StructV 14 [(js ''Inner'', StructV 12 [(js ''Object'', HRef 100)]), (js ''n'', JNum (jsint 0))]"
  by (simp add: ex_defs set_prop_def new_ptr_def zero_value_def js_def)

theorem struct_handle_promotion_witness:
  "externalize (Suc (Suc (Suc (Suc (Suc 0))))) rt0 H0 []
      (StructV 14 [(js ''Inner'', StructV 12 [(js ''Object'', HRef 100)]), (js ''n'', JNum (jsint 0))])
      14 Undefined = Ok (HRef 100)
   \<and> internalize (Suc (Suc (Suc (Suc (Suc 0))))) rt0 H0 [] (HRef 100) 14 Undefined None Undefined
      = Ok (StructV 14 [(js ''Inner'', StructV 12 [(js ''Object'', HRef 100)]), (js ''n'', JNum (jsint 0))],
            [], seen_start None 14)
   \<and> internalize (Suc 0) rt0 H0 [] (HRef 102) 12 Undefined None Undefined = GoPanic
   \<and> externalize (Suc (Suc 0)) rt0 H0 [] (StructV 18 []) 18 Undefined = Ok (ObjLit [])
   \<and> internalize (Suc (Suc 0)) rt0 H0 [] (HRef 100) 18 Undefined None Undefined
      = Ok (StructV 18 [], [], seen_start None 18)"
proof -
  let ?v = "StructV 14 [(js ''Inner'', StructV 12 [(js ''Object'', HRef 100)]), (js ''n'', JNum (jsint 0))]"
  have nt: "\<not> is_time_value rt0 v" for v by (simp add: is_time_value_def rt0_def)
  have br: "\<not> no_backref H0 (HRef 102)"
    by (simp add: no_backref_def get_prop_102 truthy_def go_stringer_def)
  have at: "assertType rt0 (the (get_prop H0 (HRef 102) (js ''__internal_object__''))) 12 = None"
    by (simp add: get_prop_102 rt0_def)
  have l: "Suc (Suc (length [13, 12, 0 :: nat] + 0)) = Suc (Suc (Suc (Suc (Suc 0))))" by simp
  note i14 = struct_handle_promotion [OF wf_rt0 example_Outer(1),
      of H0 ?v "[13, 12, 0]" "HRef 100" 0 "[]" Undefined "HRef 100" None Undefined, unfolded l]
  note i12 = struct_handle_promotion [OF wf_rt0 example_Outer(2),
      of H0 Undefined "[]" Undefined 0 "[]" Undefined "HRef 102" None Undefined]
  note i18 = struct_handle_promotion [OF wf_rt0 example_Outer(3),
      of H0 "StructV 18 []" "[]" Undefined 0 "[]" Undefined "HRef 100" None Undefined]
  have c1: "externalize (Suc (Suc (Suc (Suc (Suc 0))))) rt0 H0 [] ?v 14 Undefined = Ok (HRef 100)"
    using i14 example_Outer_value nt by blast
  have c2: "internalize (Suc (Suc (Suc (Suc (Suc 0))))) rt0 H0 [] (HRef 100) 14 Undefined None Undefined
      = Ok (?v, [], seen_start None 14)"
    using i14 example_Outer(4,6) no_backref_100 not_cached_None [of 14 "HRef 100"]
    unfolding example_Outer_adopt by blast
  have c3: "internalize (Suc 0) rt0 H0 [] (HRef 102) 12 Undefined None Undefined = GoPanic"
    using i12 [THEN conjunct2, THEN conjunct2, THEN conjunct1, rule_format, OF conjI, OF example_Outer(8) br]
    by (simp only: at option.case)
  have c4: "externalize (Suc (Suc 0)) rt0 H0 [] (StructV 18 []) 18 Undefined = Ok (ObjLit [])"
    using i18 example_Outer(10) nt by blast
  have c5: "internalize (Suc (Suc 0)) rt0 H0 [] (HRef 100) 18 Undefined None Undefined
      = Ok (StructV 18 [], [], seen_start None 18)"
    using i18 example_Outer(7,9,10) no_backref_100 not_cached_None [of 18 "HRef 100"] by blast
  from c1 c2 c3 c4 c5 show ?thesis by blast
qed

text \<open>
  C5 as stated fails for a host value that carries a back-reference: internalized into
  \<open>struct {Object *js.Object}\<close>, whose first field is of the handle type, it is not
  adopted into a new struct; the value it wraps is asserted against the descriptor, and
  here the assertion fails.
\<close>

theorem struct_handle_backref:
  "type_chain rt0 [12, 0]
   \<and> internalize (Suc (Suc (Suc 0))) rt0 H0 [] (HRef 102) 12 Undefined None Undefined = GoPanic"
proof -
  have "internalize (Suc (Suc (Suc 0))) rt0 H0 [] (HRef 102) 12 Undefined None Undefined = GoPanic"
    by (simp add: internalize_body_def ex_defs get_prop_def truthy_def go_stringer_def)
  with example_Outer(5) show ?thesis by blast
qed
subsection \<open>Cyclic host objects\<close>

lemma get_prop_101:
  "get_prop H0 (HRef 101) (js ''__internal_object__'') = Some Undefined"
  "get_prop H0 (HRef 101) (js ''Name'') = Some (JStr (js ''n''))"
  "get_prop H0 (HRef 101) (js ''Next'') = Some (HRef 101)"
  by (simp_all add: get_prop_def ex_defs js_def)

lemma no_backref_101: "no_backref H0 (HRef 101)"
  by (simp add: no_backref_def get_prop_101)

lemma no_backref_n: "no_backref H0 (JStr (js ''n''))"
  by (simp add: no_backref_def get_prop_def index_prop_def js_def dec_nat.simps digit_char_def)

lemma example_T:
  "t_kind (tdesc rt0 10) = KStruct" "10 \<noteq> t_elem (tdesc rt0 (jsObjectPtr rt0))"
  "timeTime rt0 \<noteq> Some 10"
  "t_fields (tdesc rt0 10) = [fld ''Name'' True 5, fld ''Next'' True 11]"
  "t_kind (tdesc rt0 11) = KPtr" "11 \<noteq> jsObjectPtr rt0" "11 \<noteq> t_elem (tdesc rt0 (jsObjectPtr rt0))"
  "timeTime rt0 \<noteq> Some 11" "t_elem (tdesc rt0 11) = 10"
  "t_kind (tdesc rt0 5) = KString" "5 \<noteq> jsObjectPtr rt0" "5 \<noteq> t_elem (tdesc rt0 (jsObjectPtr rt0))"
  "timeTime rt0 \<noteq> Some 5" "10 \<noteq> jsObjectPtr rt0"
  by (simp_all add: ex_defs)

lemma internalize_T_ptr:
  assumes "not_cached seen 11 (HRef 101)"
  shows "internalize (Suc n) rt0 H0 st (HRef 101) 11 recv seen mk =
     bind_res (internalize n rt0 H0 st (HRef 101) 10 mk None Undefined)
       (\<lambda>(x, st', c). Ok (x, st', seen_start seen 11))"
  unfolding internalize_reaches_switch [OF example_T(6,7) no_backref_101 example_T(8) assms]
  by (simp add: internalize_kind_def internalize_ptr_def example_T del: internalize.simps)

lemma internalize_T_name:
  assumes "not_cached seen 5 (JStr (js ''n''))"
  shows "\<exists>x. internalize (Suc n) rt0 H0 st (JStr (js ''n'')) 5 recv seen mk =
     Ok (x, st, seen_start seen 5)"
  unfolding internalize_reaches_switch [OF example_T(11,12) no_backref_n example_T(13) assms]
  by (simp add: internalize_kind_def example_T del: internalize.simps)

lemma search_T: "searchJsObject_in (Suc (Suc k)) rt0 v 10 = Ok None"
  by (simp add: ex_defs bind_res_def)

lemma search_T_short: "searchJsObject_in (Suc 0) rt0 v 10 = OutOfFuel"
  by (simp add: ex_defs bind_res_def)

lemma internalize_T_diverges:
  "(\<forall>t v. not_cached seen t v) \<Longrightarrow>
     internalize n rt0 H0 st (HRef 101) 10 recv seen mk = OutOfFuel
     \<and> internalize n rt0 H0 st (HRef 101) 11 recv seen mk = OutOfFuel"
proof (induction n arbitrary: st recv seen mk)
  case 0
  then show ?case by simp
next
  case (Suc n)
  have clean_None: "\<forall>t v. not_cached None t v" by (simp add: not_cached_def)
  have p: "internalize (Suc n) rt0 H0 st (HRef 101) 11 recv seen mk = OutOfFuel"
    unfolding internalize_T_ptr [OF Suc.prems [rule_format]]
    using Suc.IH [OF clean_None, of st mk Undefined] by (simp add: bind_res_def)
  have s: "internalize (Suc n) rt0 H0 st (HRef 101) 10 recv seen mk = OutOfFuel"
  proof -
    note unfold = internalize_struct_case [OF wf_rt0 example_T(1,2,3) no_backref_101 Suc.prems [rule_format]]
    show ?thesis
    proof (cases n)
      case 0
      show ?thesis unfolding unfold 0 by (simp add: internalize_struct_def bind_res_def)
    next
      case (Suc m)
      show ?thesis
      proof (cases m)
        case 0
        show ?thesis unfolding unfold \<open>n = Suc m\<close> 0 search_T_short
          by (simp add: internalize_struct_def bind_res_def)
      next
        case (Suc k)
        let ?s2 = "seen_start seen 10"
        have c2: "\<forall>t v. not_cached (Some ?s2) t v" by (rule not_cached_start [OF Suc.prems])
        from internalize_T_name [OF c2 [rule_format], of m st recv mk]
        obtain x where nm: "internalize (Suc m) rt0 H0 st (JStr (js ''n'')) 5 recv (Some ?s2) mk
            = Ok (x, st, seen_start (Some ?s2) 5)" by blast
        have c3: "\<forall>t v. not_cached (Some (seen_start (Some ?s2) 5)) t v"
          by (rule not_cached_start [OF c2])
        have nx: "internalize (Suc m) rt0 H0 st (HRef 101) 11 recv (Some (seen_start (Some ?s2) 5)) mk
            = OutOfFuel"
          using Suc.IH [OF c3, of st recv mk] \<open>n = Suc m\<close> by simp
        show ?thesis
          unfolding unfold \<open>n = Suc m\<close> Suc search_T
          using nm nx
          by (simp add: internalize_struct_def internalize_fields_def bind_res_def example_T(4)
              fld_def get_prop_101 Suc del: internalize.simps)
      qed
    qed
  qed
  from s p show ?case by simp
qed

lemma get_prop_103:
  "get_prop H0 (HRef 103) (js ''__internal_object__'') = Some Undefined"
  "get_prop H0 (HRef 103) (js ''self'') = Some (HRef 103)"
  by (simp_all add: get_prop_def ex_defs js_def)

lemma no_backref_103: "no_backref H0 (HRef 103)"
  by (simp add: no_backref_def get_prop_103)

lemma no_backref_self: "no_backref H0 (JStr (js ''self''))"
  by (simp add: no_backref_def get_prop_def index_prop_def js_def dec_nat.simps digit_char_def)

lemma keys_103: "js_keys H0 (HRef 103) = [js ''self'']"
  by (simp add: js_keys_def ex_defs truthy_def)

lemma example_M:
  "t_kind (tdesc rt0 16) = KMap" "16 \<noteq> jsObjectPtr rt0" "16 \<noteq> t_elem (tdesc rt0 (jsObjectPtr rt0))"
  "timeTime rt0 \<noteq> Some 16" "t_key (tdesc rt0 16) = 5" "t_elem (tdesc rt0 16) = 6"
  "t_kind (tdesc rt0 6) = KInterface" "6 \<noteq> jsObjectPtr rt0" "6 \<noteq> t_elem (tdesc rt0 (jsObjectPtr rt0))"
  "timeTime rt0 \<noteq> Some 6" "t_methods (tdesc rt0 6) = []"
  "mapType rt0 (ty_String rt0) (ty_emptyInterface rt0) = 16"
  "plain_kind (t_kind (tdesc rt0 5))" "t_kind (tdesc rt0 5) = KString"
  "keyFor rt0 5 k = k"
  by (simp_all add: ex_defs plain_kind_def)

lemma self_string: "internalize_plain H0 KString (JStr (js ''self'')) = JStr (js ''self'')"
  by (simp add: internalize_plain_def ToString_def internalize_string_def isASCII_def js_def)

lemma class_103: "host_class H0 (HRef 103) = ClsObject" "\<not> is_Node H0 (HRef 103)"
  by (simp_all add: host_class_def is_Node_def ex_defs)

text \<open>
  The map case enters the new map into the cache before it visits the keys. So the host
  object \<open>o = {self: o}\<close> internalizes into \<open>map[string]interface{}\<close> with any fuel
  from 3 on, as a map whose entry \<open>self\<close> holds the map itself.
\<close>

lemma internalize_cyclic_map_returns:
  "internalize (Suc (Suc (Suc n))) rt0 H0 [] (HRef 103) 16 Undefined None Undefined
      = Ok (GoMap 0,
            [[(JStr (js ''self''),
               ObjLit [(js ''k'', JStr (js ''self'')), (js ''v'', New 16 [GoMap 0])])]],
            [(16, [(HRef 103, GoMap 0)]), (5, []), (6, [])])"
proof -
  let ?c1 = "seen_set (seen_start None 16) 16 (HRef 103) (GoMap 0)"
  have c1: "?c1 = [(16, [(HRef 103, GoMap 0)])]" by (simp add: seen_set_def seen_start_def)
  have nc: "not_cached None 16 (HRef 103)" by (simp add: not_cached_def)
  have nc5: "not_cached (Some [(16, [(HRef 103, GoMap 0)])]) 5 (JStr (js ''self''))"
    by (simp add: not_cached_def seen_get_def)
  have s5: "seen_start (Some [(16, [(HRef 103, GoMap 0)])]) 5 = [(16, [(HRef 103, GoMap 0)]), (5, [])]"
    by (simp add: seen_start_def)
  have k: "internalize (Suc (Suc n)) rt0 H0 [[]] (JStr (js ''self'')) 5 Undefined
             (Some [(16, [(HRef 103, GoMap 0)])]) Undefined
      = Ok (JStr (js ''self''), [[]], [(16, [(HRef 103, GoMap 0)]), (5, [])])"
    using internalize_plain_step [OF wf_rt0 example_M(13) no_backref_self nc5, of "Suc n" "[[]]" Undefined Undefined]
    by (simp only: example_M(14) self_string s5)
  let ?c2 = "[(16, [(HRef 103, GoMap 0)]), (5, [])]"
  have nc6: "not_cached (Some ?c2) 6 (HRef 103)" by (simp add: not_cached_def seen_get_def)
  have s6: "seen_start (Some ?c2) 6 = [(16, [(HRef 103, GoMap 0)]), (5, []), (6, [])]"
    by (simp add: seen_start_def)
  let ?c3 = "[(16, [(HRef 103, GoMap 0)]), (5, []), (6, [])]"
  have hit: "internalize (Suc n) rt0 H0 [[]] (HRef 103) 16 Undefined (Some ?c3) Undefined
      = Ok (GoMap 0, [[]], ?c3)"
    using example_M(2,3,4)
    by (simp add: internalize_body_def get_prop_103 seen_start_def seen_get_def del: not_Some_eq)
  have v: "internalize (Suc (Suc n)) rt0 H0 [[]] (HRef 103) 6 Undefined (Some ?c2) Undefined
      = Ok (New 16 [GoMap 0], [[]], ?c3)"
    unfolding internalize_reaches_switch [OF example_M(8,9) no_backref_103 example_M(10) nc6] s6
    using hit
    by (simp add: internalize_kind_def internalize_interface_def example_M class_103 bind_res_def
        del: internalize.simps)
  show ?thesis
    unfolding internalize_reaches_switch [OF example_M(2,3) no_backref_103 example_M(4) nc]
    using k v
    by (simp add: internalize_kind_def internalize_map_def keys_103 example_M c1 get_prop_103
        bind_res_def del: internalize.simps)
qed

text \<open>
  C4, at the failing input. The host object \<open>o = {Name: "n", Next: o}\<close> refers to
  itself, and the target is the recursive type \<open>type T struct {Name string; Next *T}\<close>.
  Whatever the fuel, \<open>$internalize\<close> does not return: the struct case never enters the
  struct it builds into the cache, and the pointer case calls
  \<open>$internalize(v, t.elem, makeWrapper)\<close> with a fresh cache, so the same call recurs.
\<close>

theorem internalize_cyclic_struct_diverges:
  "\<forall>n. internalize n rt0 H0 [] (HRef 101) 10 Undefined None Undefined = OutOfFuel"
  using internalize_T_diverges [of None] by (simp add: not_cached_def)

subsection \<open>Strings\<close>

lemma and_low: "(x::int) AND 63 = x mod 64" "(x::int) AND 31 = x mod 32" "(x::int) AND 15 = x mod 16"
  "(x::int) AND 7 = x mod 8"
proof -
  have m: "(63::int) = mask 6" "(31::int) = mask 5" "(15::int) = mask 4" "(7::int) = mask 3"
    by (simp_all add: mask_eq_exp_minus_1)
  show "(x::int) AND 63 = x mod 64" "(x::int) AND 31 = x mod 32" "(x::int) AND 15 = x mod 16"
    "(x::int) AND 7 = x mod 8"
    unfolding m take_bit_eq_mask [symmetric] by (simp_all add: take_bit_int_def)
qed

lemma or_add:
  assumes "0 \<le> x" "x < 2 ^ n"
  shows "push_bit n (y::int) OR x = y * 2 ^ n + x"
proof -
  have "take_bit n x = x" using assms by (simp add: take_bit_int_eq_self)
  then have "push_bit n y OR x = concat_bit n x y" by (simp add: concat_bit_def or.commute)
  also have "\<dots> = take_bit n x + push_bit n y" by (rule concat_bit_eq)
  finally show ?thesis using \<open>take_bit n x = x\<close> by (simp add: push_bit_eq_mult)
qed

lemma or_const:
  "0 \<le> x \<Longrightarrow> x < 64 \<Longrightarrow> (128::int) OR x = 128 + x"
  "0 \<le> x \<Longrightarrow> x < 32 \<Longrightarrow> (192::int) OR x = 192 + x"
  "0 \<le> x \<Longrightarrow> x < 16 \<Longrightarrow> (224::int) OR x = 224 + x"
  "0 \<le> x \<Longrightarrow> x < 8 \<Longrightarrow> (240::int) OR x = 240 + x"
  using or_add [of x 6 2] or_add [of x 5 6] or_add [of x 4 14] or_add [of x 3 30]
  by (simp_all add: push_bit_eq_mult)

lemma fromCharCode_small: "0 \<le> x \<Longrightarrow> x < 65536 \<Longrightarrow> fromCharCode x = nat x"
  by (simp add: fromCharCode_def)

lemma charCodeAt_mid:
  "k < length bs \<Longrightarrow> charCodeAt (pre @ bs @ rest) (length pre + k) = Some (int (bs ! k))"
  by (simp add: charCodeAt_def nth_append)

lemma decodeRune_1:
  assumes "charCodeAt str pos = Some c0" "c0 < 0x80"
  shows "decodeRune str pos = (c0, 1)"
  unfolding decodeRune_def assms(1) using assms(2) by simp

lemma decodeRune_2:
  assumes "charCodeAt str pos = Some c0" "0xC0 \<le> c0" "c0 < 0xE0"
    and "charCodeAt str (pos + 1) = Some c1" "0x80 \<le> c1" "c1 < 0xC0"
    and "push_bit 6 (c0 AND 0x1F) OR (c1 AND 0x3F) = r" "0x7F < r"
  shows "decodeRune str pos = (r, 2)"
proof -
  have n: "\<not> c0 < 0x80" "\<not> c0 < 0xC0" "\<not> (c1 < 0x80 \<or> 0xC0 \<le> c1)" "\<not> r \<le> 0x7F"
    using assms by simp_all
  show ?thesis
    unfolding decodeRune_def assms(1) assms(4) option.case Let_def assms(7)
    by (simp only: n assms(3) if_True if_False)
qed

lemma decodeRune_3:
  assumes "charCodeAt str pos = Some c0" "0xE0 \<le> c0" "c0 < 0xF0"
    and "charCodeAt str (pos + 1) = Some c1" "0x80 \<le> c1" "c1 < 0xC0"
    and "charCodeAt str (pos + 2) = Some c2" "0x80 \<le> c2" "c2 < 0xC0"
    and "push_bit 12 (c0 AND 0x0F) OR push_bit 6 (c1 AND 0x3F) OR (c2 AND 0x3F) = r"
    and "0x7FF < r" "\<not> (0xD800 \<le> r \<and> r \<le> 0xDFFF)"
  shows "decodeRune str pos = (r, 3)"
proof -
  have n: "\<not> c0 < 0x80" "\<not> c0 < 0xC0" "\<not> c0 < 0xE0" "\<not> (c1 < 0x80 \<or> 0xC0 \<le> c1)"
    "\<not> (c2 < 0x80 \<or> 0xC0 \<le> c2)" "\<not> r \<le> 0x7FF"
    using assms by simp_all
  show ?thesis
    unfolding decodeRune_def assms(1) assms(4) assms(7) option.case Let_def assms(10)
    by (simp only: n assms(3) assms(12) if_True if_False)
qed

lemma decodeRune_4:
  assumes "charCodeAt str pos = Some c0" "0xF0 \<le> c0" "c0 < 0xF8"
    and "charCodeAt str (pos + 1) = Some c1" "0x80 \<le> c1" "c1 < 0xC0"
    and "charCodeAt str (pos + 2) = Some c2" "0x80 \<le> c2" "c2 < 0xC0"
    and "charCodeAt str (pos + 3) = Some c3" "0x80 \<le> c3" "c3 < 0xC0"
    and "push_bit 18 (c0 AND 0x07) OR push_bit 12 (c1 AND 0x3F)
           OR push_bit 6 (c2 AND 0x3F) OR (c3 AND 0x3F) = r"
    and "0xFFFF < r" "r \<le> 0x10FFFF"
  shows "decodeRune str pos = (r, 4)"
proof -
  have n: "\<not> c0 < 0x80" "\<not> c0 < 0xC0" "\<not> c0 < 0xE0" "\<not> c0 < 0xF0"
    "\<not> (c1 < 0x80 \<or> 0xC0 \<le> c1)" "\<not> (c2 < 0x80 \<or> 0xC0 \<le> c2)" "\<not> (c3 < 0x80 \<or> 0xC0 \<le> c3)"
    "\<not> (r \<le> 0xFFFF \<or> 0x10FFFF < r)"
    using assms by simp_all
  show ?thesis
    unfolding decodeRune_def assms(1) assms(4) assms(7) assms(10) option.case Let_def assms(13)
    by (simp only: n assms(3) if_True if_False)
qed


lemma encode1:
  assumes "0 \<le> c" "c \<le> 0x7F"
  shows "encodeRune (Some c) = [nat c]"
proof -
  have s: "\<not> (c < 0 \<or> c > 0x10FFFF \<or> (0xD800 \<le> c \<and> c \<le> 0xDFFF))" using assms by simp
  have f: "fromCharCode c = nat c" using assms by (simp add: fromCharCode_small)
  show ?thesis
    unfolding encodeRune_def option.case Let_def
    by (simp only: s assms(2) if_True if_False list.map f)
qed

lemma encode2:
  assumes "0x7F < c" "c \<le> 0x7FF"
  shows "encodeRune (Some c) = [nat (192 + c div 64), nat (128 + c mod 64)]"
proof -
  have s: "\<not> (c < 0 \<or> c > 0x10FFFF \<or> (0xD800 \<le> c \<and> c \<le> 0xDFFF))" "\<not> c \<le> 0x7F"
    using assms by simp_all
  have b: "0 \<le> c div 64" "c div 64 < 32" "0 \<le> c mod 64" "c mod 64 < 64" using assms by simp_all
  have o: "0xC0 OR drop_bit 6 c = 192 + c div 64" "0x80 OR (c AND 0x3F) = 128 + c mod 64"
    using or_const(2) [OF b(1,2)] or_const(1) [OF b(3,4)]
    by (simp_all add: drop_bit_eq_div and_low)
  have f: "fromCharCode (192 + c div 64) = nat (192 + c div 64)"
    "fromCharCode (128 + c mod 64) = nat (128 + c mod 64)"
    using b by (simp_all add: fromCharCode_small)
  show ?thesis
    unfolding encodeRune_def option.case Let_def
    by (simp only: s assms(2) if_True if_False list.map o f)
qed

lemma encode3:
  assumes "0x7FF < c" "c \<le> 0xFFFF" "\<not> (0xD800 \<le> c \<and> c \<le> 0xDFFF)"
  shows "encodeRune (Some c)
           = [nat (224 + c div 4096), nat (128 + (c div 64) mod 64), nat (128 + c mod 64)]"
proof -
  have s: "\<not> (c < 0 \<or> c > 0x10FFFF \<or> (0xD800 \<le> c \<and> c \<le> 0xDFFF))" "\<not> c \<le> 0x7F" "\<not> c \<le> 0x7FF"
    using assms by simp_all
  have b: "0 \<le> c div 4096" "c div 4096 < 16" "0 \<le> (c div 64) mod 64" "(c div 64) mod 64 < 64"
    "0 \<le> c mod 64" "c mod 64 < 64" using assms by simp_all
  have o: "0xE0 OR drop_bit 12 c = 224 + c div 4096"
    "0x80 OR (drop_bit 6 c AND 0x3F) = 128 + (c div 64) mod 64"
    "0x80 OR (c AND 0x3F) = 128 + c mod 64"
    using or_const(3) [OF b(1,2)] or_const(1) [OF b(3,4)] or_const(1) [OF b(5,6)]
    by (simp_all add: drop_bit_eq_div and_low)
  have f: "fromCharCode (224 + c div 4096) = nat (224 + c div 4096)"
    "fromCharCode (128 + (c div 64) mod 64) = nat (128 + (c div 64) mod 64)"
    "fromCharCode (128 + c mod 64) = nat (128 + c mod 64)"
    using b by (simp_all add: fromCharCode_small)
  show ?thesis
    unfolding encodeRune_def option.case Let_def
    by (simp only: s assms(2) if_True if_False list.map o f)
qed

lemma encode4:
  assumes "0xFFFF < c" "c \<le> 0x10FFFF"
  shows "encodeRune (Some c)
           = [nat (240 + c div 262144), nat (128 + (c div 4096) mod 64),
              nat (128 + (c div 64) mod 64), nat (128 + c mod 64)]"
proof -
  have s: "\<not> (c < 0 \<or> c > 0x10FFFF \<or> (0xD800 \<le> c \<and> c \<le> 0xDFFF))" "\<not> c \<le> 0x7F" "\<not> c \<le> 0x7FF"
    "\<not> c \<le> 0xFFFF"
    using assms by simp_all
  have b: "0 \<le> c div 262144" "c div 262144 < 8" "0 \<le> (c div 4096) mod 64" "(c div 4096) mod 64 < 64"
    "0 \<le> (c div 64) mod 64" "(c div 64) mod 64 < 64"
    "0 \<le> c mod 64" "c mod 64 < 64" using assms by simp_all
  have o: "0xF0 OR drop_bit 18 c = 240 + c div 262144"
    "0x80 OR (drop_bit 12 c AND 0x3F) = 128 + (c div 4096) mod 64"
    "0x80 OR (drop_bit 6 c AND 0x3F) = 128 + (c div 64) mod 64"
    "0x80 OR (c AND 0x3F) = 128 + c mod 64"
    using or_const(4) [OF b(1,2)] or_const(1) [OF b(3,4)] or_const(1) [OF b(5,6)] or_const(1) [OF b(7,8)]
    by (simp_all add: drop_bit_eq_div and_low)
  have f: "fromCharCode (240 + c div 262144) = nat (240 + c div 262144)"
    "fromCharCode (128 + (c div 4096) mod 64) = nat (128 + (c div 4096) mod 64)"
    "fromCharCode (128 + (c div 64) mod 64) = nat (128 + (c div 64) mod 64)"
    "fromCharCode (128 + c mod 64) = nat (128 + c mod 64)"
    using b by (simp_all add: fromCharCode_small)
  show ?thesis
    unfolding encodeRune_def option.case Let_def
    by (simp only: s if_True if_False list.map o f)
qed


lemma mod_shift: "0 \<le> x \<Longrightarrow> x < n \<Longrightarrow> (k * n + x) mod n = (x::int)"
  by simp

lemma div_split: "(x::int) div 64 * (64 * k) + x mod 64 * k = x * k"
proof -
  have "x div 64 * (64 * k) + x mod 64 * k = (x div 64 * 64 + x mod 64) * k"
    by (simp only: distrib_right mult.assoc)
  also have "\<dots> = x * k" by (simp only: div_mult_mod_eq)
  finally show ?thesis .
qed

lemma split3: "(c::int) = (c div 4096) * 4096 + ((c div 64) mod 64) * 64 + c mod 64"
proof -
  have d: "c div 4096 = (c div 64) div 64" by (simp add: zdiv_zmult2_eq [symmetric])
  have "(c div 4096) * 4096 + ((c div 64) mod 64) * 64 = (c div 64) * 64"
    unfolding d using div_split [of "c div 64" 64] by simp
  then show ?thesis using div_mult_mod_eq [of c 64] by simp
qed

lemma split4:
  "(c::int) = (c div 262144) * 262144 + ((c div 4096) mod 64) * 4096 + ((c div 64) mod 64) * 64 + c mod 64"
proof -
  have d: "c div 262144 = (c div 4096) div 64" by (simp add: zdiv_zmult2_eq [symmetric])
  have "(c div 262144) * 262144 + ((c div 4096) mod 64) * 4096 = (c div 4096) * 4096"
    unfolding d using div_split [of "c div 4096" 4096] by simp
  then show ?thesis using split3 [of c] by simp
qed

lemma decode_encode:
  assumes "scalar c"
  shows "decodeRune (pre @ encodeRune (Some c) @ rest) (length pre) = (c, length (encodeRune (Some c)))"
proof -
  from assms have sc: "0 \<le> c" "c \<le> 0x10FFFF" "\<not> (0xD800 \<le> c \<and> c \<le> 0xDFFF)"
    by (simp_all add: scalar_def)
  consider "c \<le> 0x7F" | "0x7F < c" "c \<le> 0x7FF" | "0x7FF < c" "c \<le> 0xFFFF" | "0xFFFF < c"
    by linarith
  then show ?thesis
  proof cases
    case 1
    have e: "encodeRune (Some c) = [nat c]" by (rule encode1 [OF sc(1) 1])
    have c0: "charCodeAt (pre @ [nat c] @ rest) (length pre) = Some c"
      using charCodeAt_mid [of 0 "[nat c]" pre rest] sc(1) by simp
    have lt: "c < 0x80" using 1 by simp
    show ?thesis unfolding e using decodeRune_1 [OF c0 lt] by simp
  next
    case 2
    define d m where "d = c div 64" and "m = c mod 64"
    have b: "0 \<le> d" "d < 32" "0 \<le> m" "m < 64" "c = d * 64 + m"
      using 2 by (simp_all add: d_def m_def)
    have e: "encodeRune (Some c) = [nat (192 + d), nat (128 + m)]"
      unfolding d_def m_def by (rule encode2 [OF 2])
    let ?bs = "[nat (192 + d), nat (128 + m)]"
    have c0: "charCodeAt (pre @ ?bs @ rest) (length pre) = Some (192 + d)"
      using charCodeAt_mid [of 0 ?bs pre rest] b by simp
    have c1: "charCodeAt (pre @ ?bs @ rest) (length pre + 1) = Some (128 + m)"
      using charCodeAt_mid [of 1 ?bs pre rest] b by simp
    have md: "(192 + d) mod 32 = d" "(128 + m) mod 64 = m"
      using mod_shift [of d 32 6] mod_shift [of m 64 2] b(1-4) by simp_all
    have r: "push_bit 6 ((192 + d) AND 0x1F) OR ((128 + m) AND 0x3F) = c"
      using or_add [of m 6 d] b by (simp add: and_low md)
    have g: "0xC0 \<le> 192 + d" "192 + d < 0xE0" "0x80 \<le> 128 + m" "128 + m < 0xC0" "0x7F < c"
      using b 2 by simp_all
    show ?thesis unfolding e using decodeRune_2 [OF c0 g(1,2) c1 g(3,4) r g(5)] by simp
  next
    case 3
    define a b m where "a = c div 4096" and "b = (c div 64) mod 64" and "m = c mod 64"
    have bd: "0 \<le> a" "a < 16" "0 \<le> b" "b < 64" "0 \<le> m" "m < 64"
      using 3 by (simp_all add: a_def b_def m_def)
    have ce: "c = a * 4096 + b * 64 + m" unfolding a_def b_def m_def by (rule split3)
    have e: "encodeRune (Some c) = [nat (224 + a), nat (128 + b), nat (128 + m)]"
      unfolding a_def b_def m_def by (rule encode3 [OF 3 sc(3)])
    let ?bs = "[nat (224 + a), nat (128 + b), nat (128 + m)]"
    have c0: "charCodeAt (pre @ ?bs @ rest) (length pre) = Some (224 + a)"
      using charCodeAt_mid [of 0 ?bs pre rest] bd by simp
    have c1: "charCodeAt (pre @ ?bs @ rest) (length pre + 1) = Some (128 + b)"
      using charCodeAt_mid [of 1 ?bs pre rest] bd by simp
    have c2: "charCodeAt (pre @ ?bs @ rest) (length pre + 2) = Some (128 + m)"
      using charCodeAt_mid [of 2 ?bs pre rest] bd by simp
    have md: "(224 + a) mod 16 = a" "(128 + b) mod 64 = b" "(128 + m) mod 64 = m"
      using mod_shift [of a 16 14] mod_shift [of b 64 2] mod_shift [of m 64 2] bd by simp_all
    have r1: "push_bit 6 b OR m = b * 64 + m" using or_add [of m 6 b] bd by simp
    have r2: "push_bit 12 a OR (b * 64 + m) = a * 4096 + b * 64 + m"
      using or_add [of "b * 64 + m" 12 a] bd by simp
    have r: "push_bit 12 ((224 + a) AND 0x0F) OR push_bit 6 ((128 + b) AND 0x3F) OR ((128 + m) AND 0x3F) = c"
      by (simp only: and_low md or.assoc r1 r2 ce)
    have g: "0xE0 \<le> 224 + a" "224 + a < 0xF0" "0x80 \<le> 128 + b" "128 + b < 0xC0"
      "0x80 \<le> 128 + m" "128 + m < 0xC0"
      using bd by simp_all
    show ?thesis
      unfolding e using decodeRune_3 [OF c0 g(1,2) c1 g(3,4) c2 g(5,6) r 3(1) sc(3)] by simp
  next
    case 4
    define a b e m where "a = c div 262144" and "b = (c div 4096) mod 64"
      and "e = (c div 64) mod 64" and "m = c mod 64"
    have bd: "0 \<le> a" "a < 8" "0 \<le> b" "b < 64" "0 \<le> e" "e < 64" "0 \<le> m" "m < 64"
      using 4 sc(2) by (simp_all add: a_def b_def e_def m_def)
    have ce: "c = a * 262144 + b * 4096 + e * 64 + m" unfolding a_def b_def e_def m_def by (rule split4)
    have en: "encodeRune (Some c) = [nat (240 + a), nat (128 + b), nat (128 + e), nat (128 + m)]"
      unfolding a_def b_def e_def m_def by (rule encode4 [OF 4 sc(2)])
    let ?bs = "[nat (240 + a), nat (128 + b), nat (128 + e), nat (128 + m)]"
    have c0: "charCodeAt (pre @ ?bs @ rest) (length pre) = Some (240 + a)"
      using charCodeAt_mid [of 0 ?bs pre rest] bd by simp
    have c1: "charCodeAt (pre @ ?bs @ rest) (length pre + 1) = Some (128 + b)"
      using charCodeAt_mid [of 1 ?bs pre rest] bd by simp
    have c2: "charCodeAt (pre @ ?bs @ rest) (length pre + 2) = Some (128 + e)"
      using charCodeAt_mid [of 2 ?bs pre rest] bd by simp
    have c3: "charCodeAt (pre @ ?bs @ rest) (length pre + 3) = Some (128 + m)"
      using charCodeAt_mid [of 3 ?bs pre rest] bd by simp
    have md: "(240 + a) mod 8 = a" "(128 + b) mod 64 = b" "(128 + e) mod 64 = e" "(128 + m) mod 64 = m"
      using mod_shift [of a 8 30] mod_shift [of b 64 2] mod_shift [of e 64 2] mod_shift [of m 64 2] bd
      by simp_all
    have r1: "push_bit 6 e OR m = e * 64 + m" using or_add [of m 6 e] bd by simp
    have r2: "push_bit 12 b OR (e * 64 + m) = b * 4096 + e * 64 + m"
      using or_add [of "e * 64 + m" 12 b] bd by simp
    have r3: "push_bit 18 a OR (b * 4096 + e * 64 + m) = a * 262144 + b * 4096 + e * 64 + m"
      using or_add [of "b * 4096 + e * 64 + m" 18 a] bd by simp
    have r: "push_bit 18 ((240 + a) AND 0x07) OR push_bit 12 ((128 + b) AND 0x3F)
           OR push_bit 6 ((128 + e) AND 0x3F) OR ((128 + m) AND 0x3F) = c"
      by (simp only: and_low md or.assoc r1 r2 r3 ce)
    have g: "0xF0 \<le> 240 + a" "240 + a < 0xF8" "0x80 \<le> 128 + b" "128 + b < 0xC0"
      "0x80 \<le> 128 + e" "128 + e < 0xC0" "0x80 \<le> 128 + m" "128 + m < 0xC0"
      using bd by simp_all
    show ?thesis
      unfolding en
      using decodeRune_4 [OF c0 g(1,2) c1 g(3,4) c2 g(5,6) c3 g(7,8) r 4 sc(2)] by simp
  qed
qed


lemma encode_cases:
  assumes "scalar c"
  shows "(c \<le> 0x7F \<and> encodeRune (Some c) = [nat c])
       \<or> (0x7F < c \<and> (\<exists>b bs. encodeRune (Some c) = b # bs \<and> 128 \<le> b))"
proof -
  from assms have sc: "0 \<le> c" "c \<le> 0x10FFFF" "\<not> (0xD800 \<le> c \<and> c \<le> 0xDFFF)"
    by (simp_all add: scalar_def)
  consider "c \<le> 0x7F" | "0x7F < c" "c \<le> 0x7FF" | "0x7FF < c" "c \<le> 0xFFFF" | "0xFFFF < c"
    by linarith
  then show ?thesis
  proof cases
    case 1
    with encode1 [OF sc(1) 1] show ?thesis by simp
  next
    case 2
    have "0 \<le> c div 64" using 2 by simp
    then have "128 \<le> nat (192 + c div 64)" by simp
    with encode2 [OF 2] 2(1) show ?thesis by blast
  next
    case 3
    have "0 \<le> c div 4096" using 3 by simp
    then have "128 \<le> nat (224 + c div 4096)" by simp
    with encode3 [OF 3 sc(3)] 3(1) show ?thesis by (intro disjI2 conjI exI) simp_all
  next
    case 4
    have "0 \<le> c div 262144" using 4 by simp
    then have "128 \<le> nat (240 + c div 262144)" by simp
    with encode4 [OF 4 sc(2)] 4 show ?thesis by (intro disjI2 conjI exI) simp_all
  qed
qed

lemma encode_nonempty: "scalar c \<Longrightarrow> encodeRune (Some c) \<noteq> []"
  using encode_cases [of c] by auto

lemma utf8_Cons: "utf8 (c # cs) = encodeRune (Some c) @ utf8 cs"
  by (simp add: utf8_def)

lemma utf16_Cons: "utf16 (c # cs) = utf16_unit c @ utf16 cs"
  by (simp add: utf16_def)

lemma externalize_loop_utf8:
  "\<forall>c \<in> set cs. scalar c \<Longrightarrow> externalize_loop (pre @ utf8 cs) (length pre) s = s @ utf16 cs"
proof (induction cs arbitrary: pre s)
  case Nil
  show ?case by (simp add: utf8_def utf16_def externalize_loop.simps [of pre "length pre" s])
next
  case (Cons c cs)
  have sc: "scalar c" and rest: "\<forall>c \<in> set cs. scalar c" using Cons.prems by simp_all
  let ?e = "encodeRune (Some c)"
  let ?v = "pre @ ?e @ utf8 cs"
  have lt: "length pre < length ?v" using encode_nonempty [OF sc] by (cases ?e) simp_all
  have d: "decodeRune ?v (length pre) = (c, length ?e)" by (rule decode_encode [OF sc])
  have step: "externalize_loop ?v (length pre) s
      = externalize_loop ?v (length pre + length ?e) (s @ utf16_unit c)"
    by (subst externalize_loop.simps) (simp add: encode_nonempty [OF sc] d Let_def utf16_unit_def)
  have ih: "externalize_loop ((pre @ ?e) @ utf8 cs) (length (pre @ ?e)) (s @ utf16_unit c)
      = (s @ utf16_unit c) @ utf16 cs"
    by (rule Cons.IH [OF rest])
  show ?case unfolding utf8_Cons utf16_Cons step using ih by simp
qed

lemma utf16_unit_low:
  assumes "scalar c" "c \<le> 0xFFFF"
  shows "utf16_unit c = [nat c]" "\<not> (0xD800 \<le> int (nat c) \<and> int (nat c) \<le> 0xDBFF)" "int (nat c) = c"
  using assms by (auto simp: utf16_unit_def scalar_def fromCharCode_small)

lemma utf16_unit_high:
  assumes "scalar c" "0xFFFF < c"
  shows "\<exists>h l. utf16_unit c = [nat h, nat l] \<and> 0xD800 \<le> h \<and> h \<le> 0xDBFF
           \<and> 0xDC00 \<le> l \<and> l \<le> 0xDFFF \<and> (h - 0xD800) * 0x400 + l - 0xDC00 + 0x10000 = c"
proof -
  define x where "x = c - 0x10000"
  have x: "0 \<le> x" "x < 0x100000" using assms by (simp_all add: x_def scalar_def)
  define h l where "h = x div 0x400 + 0xD800" and "l = x mod 0x400 + 0xDC00"
  have b: "0xD800 \<le> h" "h \<le> 0xDBFF" "0xDC00 \<le> l" "l \<le> 0xDFFF"
    using x by (simp_all add: h_def l_def)
  have e: "(h - 0xD800) * 0x400 + l - 0xDC00 + 0x10000 = c"
    using div_mult_mod_eq [of x "0x400"] by (simp add: h_def l_def x_def)
  have u: "utf16_unit c = [nat h, nat l]"
    using assms(2) b by (simp add: utf16_unit_def h_def l_def x_def fromCharCode_small)
  from u b e show ?thesis by blast
qed

lemma internalize_loop_utf16:
  "\<forall>c \<in> set cs. scalar c \<Longrightarrow> internalize_loop (pre @ utf16 cs) (length pre) s = s @ utf8 cs"
proof (induction cs arbitrary: pre s)
  case Nil
  show ?case by (simp add: utf8_def utf16_def internalize_loop.simps [of pre "length pre" s])
next
  case (Cons c cs)
  have sc: "scalar c" and rest: "\<forall>c \<in> set cs. scalar c" using Cons.prems by simp_all
  let ?e = "encodeRune (Some c)"
  show ?case
  proof (cases "c \<le> 0xFFFF")
    case True
    note u = utf16_unit_low [OF sc True]
    let ?v = "pre @ [nat c] @ utf16 cs"
    have hv: "int (?v ! length pre) = c" using u(3) by (simp add: nth_append)
    have nr: "\<not> (0xD800 \<le> c \<and> c \<le> 0xDBFF)" using u(2) unfolding u(3) .
    have lt: "length pre < length ?v" by simp
    have step: "internalize_loop ?v (length pre) s = internalize_loop ?v (length pre + 1) (s @ ?e)"
      by (subst internalize_loop.simps) (simp only: lt hv nr Let_def if_True if_False)
    have ih: "internalize_loop ((pre @ [nat c]) @ utf16 cs) (length (pre @ [nat c])) (s @ ?e)
        = (s @ ?e) @ utf8 cs"
      by (rule Cons.IH [OF rest])
    show ?thesis unfolding utf8_Cons utf16_Cons u(1) step using ih by simp
  next
    case False
    then have hi: "0xFFFF < c" by simp
    from utf16_unit_high [OF sc hi]
    obtain h l where u: "utf16_unit c = [nat h, nat l]" and b: "0xD800 \<le> h" "h \<le> 0xDBFF"
      "0xDC00 \<le> l" "l \<le> 0xDFFF" and e: "(h - 0xD800) * 0x400 + l - 0xDC00 + 0x10000 = c"
      by blast
    let ?v = "pre @ [nat h, nat l] @ utf16 cs"
    have hv: "int (?v ! length pre) = h" using b by (simp add: nth_append)
    have lv: "charCodeAt ?v (length pre + 1) = Some l"
      using charCodeAt_mid [of 1 "[nat h, nat l]" pre "utf16 cs"] b by simp
    have lt: "length pre < length ?v" by simp
    have step: "internalize_loop ?v (length pre) s = internalize_loop ?v (length pre + 2) (s @ ?e)"
      by (subst internalize_loop.simps) (simp only: lt hv lv b e Let_def if_True simp_thms option.map)
    have ih: "internalize_loop ((pre @ [nat h, nat l]) @ utf16 cs) (length (pre @ [nat h, nat l])) (s @ ?e)
        = (s @ ?e) @ utf8 cs"
      by (rule Cons.IH [OF rest])
    show ?thesis unfolding utf8_Cons utf16_Cons u step using ih by simp
  qed
qed

lemma ascii_utf8:
  "\<forall>c \<in> set cs. scalar c \<Longrightarrow> isASCII (utf8 cs) \<Longrightarrow> utf8 cs = utf16 cs"
proof (induction cs)
  case Nil
  show ?case by (simp add: utf8_def utf16_def)
next
  case (Cons c cs)
  have sc: "scalar c" and rest: "\<forall>c \<in> set cs. scalar c" using Cons.prems(1) by simp_all
  from Cons.prems(2) have a: "isASCII (encodeRune (Some c))" "isASCII (utf8 cs)"
    by (simp_all add: utf8_Cons isASCII_def)
  from encode_cases [OF sc] a(1) have lo: "c \<le> 0x7F" "encodeRune (Some c) = [nat c]"
    by (auto simp: isASCII_def)
  have "utf16_unit c = [nat c]" using utf16_unit_low(1) [OF sc] lo(1) by simp
  with lo(2) Cons.IH [OF rest a(2)] show ?case by (simp add: utf8_Cons utf16_Cons)
qed

lemma ascii_utf16:
  "\<forall>c \<in> set cs. scalar c \<Longrightarrow> isASCII (utf16 cs) \<Longrightarrow> utf8 cs = utf16 cs"
proof (induction cs)
  case Nil
  show ?case by (simp add: utf8_def utf16_def)
next
  case (Cons c cs)
  have sc: "scalar c" and rest: "\<forall>c \<in> set cs. scalar c" using Cons.prems(1) by simp_all
  from Cons.prems(2) have a: "isASCII (utf16_unit c)" "isASCII (utf16 cs)"
    by (simp_all add: utf16_Cons isASCII_def)
  have le: "c \<le> 0xFFFF"
  proof (rule ccontr)
    assume "\<not> c \<le> 0xFFFF"
    then have "0xFFFF < c" by simp
    from utf16_unit_high [OF sc this] a(1) show False by (auto simp: isASCII_def)
  qed
  from utf16_unit_low [OF sc le] a(1) have lo: "c \<le> 0x7F" "utf16_unit c = [nat c]"
    by (simp_all add: isASCII_def)
  have "0 \<le> c" using sc by (simp add: scalar_def)
  from encode1 [OF this lo(1)] lo(2) Cons.IH [OF rest a(2)] show ?case
    by (simp add: utf8_Cons utf16_Cons)
qed

text \<open>
  C3, as amended. For every compiled string that is the UTF-8 text of a list of Unicode
  scalar values, \<open>$externalize\<close> yields the UTF-16 text of the same scalar values, with a
  surrogate pair for each scalar value above U+FFFF, and \<open>$internalize\<close> yields the
  compiled string again from it.
\<close>

theorem string_round_trip:
  "\<forall>cs. (\<forall>c \<in> set cs. scalar c)
     \<longrightarrow> externalize_string (utf8 cs) = utf16 cs
         \<and> internalize_string (utf16 cs) = utf8 cs
         \<and> internalize_string (externalize_string (utf8 cs)) = utf8 cs
         \<and> (\<forall>c \<in> set cs. 0xFFFF < c \<longrightarrow>
               (\<exists>h l. utf16_unit c = [nat h, nat l] \<and> 0xD800 \<le> h \<and> h \<le> 0xDBFF
                      \<and> 0xDC00 \<le> l \<and> l \<le> 0xDFFF))"
proof (intro allI impI)
  fix cs assume sc: "\<forall>c \<in> set cs. scalar c"
  have a: "externalize_string (utf8 cs) = utf16 cs"
  proof (cases "isASCII (utf8 cs)")
    case True
    with ascii_utf8 [OF sc True] show ?thesis by (simp add: externalize_string_def)
  next
    case False
    with externalize_loop_utf8 [OF sc, of "[]" "[]"] show ?thesis by (simp add: externalize_string_def)
  qed
  have b: "internalize_string (utf16 cs) = utf8 cs"
  proof (cases "isASCII (utf16 cs)")
    case True
    with ascii_utf16 [OF sc True] show ?thesis by (simp add: internalize_string_def)
  next
    case False
    with internalize_loop_utf16 [OF sc, of "[]" "[]"] show ?thesis by (simp add: internalize_string_def)
  qed
  have c: "\<forall>c \<in> set cs. 0xFFFF < c \<longrightarrow>
               (\<exists>h l. utf16_unit c = [nat h, nat l] \<and> 0xD800 \<le> h \<and> h \<le> 0xDBFF
                      \<and> 0xDC00 \<le> l \<and> l \<le> 0xDFFF)"
  proof (intro ballI impI)
    fix c assume "c \<in> set cs" "0xFFFF < c"
    with sc have "scalar c" by blast
    from utf16_unit_high [OF this \<open>0xFFFF < c\<close>]
    show "\<exists>h l. utf16_unit c = [nat h, nat l] \<and> 0xD800 \<le> h \<and> h \<le> 0xDBFF
                      \<and> 0xDC00 \<le> l \<and> l \<le> 0xDFFF" by blast
  qed
  from a b have r: "internalize_string (externalize_string (utf8 cs)) = utf8 cs" by simp
  from a b r c show "externalize_string (utf8 cs) = utf16 cs
         \<and> internalize_string (utf16 cs) = utf8 cs
         \<and> internalize_string (externalize_string (utf8 cs)) = utf8 cs
         \<and> (\<forall>c \<in> set cs. 0xFFFF < c \<longrightarrow>
               (\<exists>h l. utf16_unit c = [nat h, nat l] \<and> 0xD800 \<le> h \<and> h \<le> 0xDBFF
                      \<and> 0xDC00 \<le> l \<and> l \<le> 0xDFFF))"
    by (intro conjI)
qed


lemma utf8_example: "utf8 [0x48, 0xE9, 0x1F600] = [0x48, 0xC3, 0xA9, 0xF0, 0x9F, 0x98, 0x80]"
  using encode1 [of "0x48"] encode2 [of "0xE9"] encode4 [of "0x1F600"]
  by (simp add: utf8_def)

lemma utf16_example: "utf16 [0x48, 0xE9, 0x1F600] = [0x48, 0xE9, 0xD83D, 0xDE00]"
  by (simp add: utf16_def utf16_unit_def fromCharCode_def)

theorem string_round_trip_witness:
  "externalize_string [0x48, 0xC3, 0xA9, 0xF0, 0x9F, 0x98, 0x80] = [0x48, 0xE9, 0xD83D, 0xDE00]
   \<and> internalize_string [0x48, 0xE9, 0xD83D, 0xDE00] = [0x48, 0xC3, 0xA9, 0xF0, 0x9F, 0x98, 0x80]
   \<and> internalize_string (externalize_string [0x48, 0xC3, 0xA9, 0xF0, 0x9F, 0x98, 0x80])
       = [0x48, 0xC3, 0xA9, 0xF0, 0x9F, 0x98, 0x80]"
proof -
  have sc: "\<forall>c \<in> set [0x48, 0xE9, 0x1F600]. scalar c" by (simp add: scalar_def)
  from string_round_trip [THEN spec, of "[0x48, 0xE9, 0x1F600]"] sc
  have "externalize_string (utf8 [0x48, 0xE9, 0x1F600]) = utf16 [0x48, 0xE9, 0x1F600]"
    "internalize_string (utf16 [0x48, 0xE9, 0x1F600]) = utf8 [0x48, 0xE9, 0x1F600]"
    "internalize_string (externalize_string (utf8 [0x48, 0xE9, 0x1F600])) = utf8 [0x48, 0xE9, 0x1F600]"
    by blast+
  then show ?thesis unfolding utf8_example utf16_example by (intro conjI)
qed

text \<open>
  C3 as stated fails: a compiled string is any sequence of bytes, and the byte \<open>0xFF\<close>
  alone is no UTF-8 text. It is externalized as U+FFFD, which is internalized as the
  three bytes \<open>EF BF BD\<close>.
\<close>

theorem string_round_trip_malformed:
  "externalize_string [0xFF] = [0xFFFD] \<and> internalize_string (externalize_string [0xFF]) = [0xEF, 0xBF, 0xBD]"
proof -
  have d: "decodeRune [0xFF] 0 = (0xFFFD, 1)" by (simp add: decodeRune_def charCodeAt_def)
  have a: "externalize_loop [0xFF] 0 [] = [0xFFFD]"
    by (simp add: externalize_loop.simps [of "[0xFF]" 0] externalize_loop.simps [of "[0xFF]" "Suc 0"] d
        fromCharCode_def)
  have e: "externalize_string [0xFF] = [0xFFFD]" by (simp add: externalize_string_def isASCII_def a)
  have enc: "encodeRune (Some 0xFFFD) = [0xEF, 0xBF, 0xBD]" using encode3 [of "0xFFFD"] by simp
  have b: "internalize_loop [0xFFFD] 0 [] = [0xEF, 0xBF, 0xBD]"
    by (simp add: internalize_loop.simps [of "[0xFFFD]" 0] internalize_loop.simps [of "[0xFFFD]" "Suc 0"] enc)
  have i: "internalize_string [0xFFFD] = [0xEF, 0xBF, 0xBD]"
    by (simp add: internalize_string_def isASCII_def b)
  from e i show ?thesis by simp
qed
end
